theory Spec2Isabelle
  imports Main "HOL-Library.Sublist" "HOL-Library.Monad_Syntax"
begin

section \<open>Python strings\<close>

text \<open>
  A Python \<open>str\<close> is a sequence of Unicode code points, so it is modelled as a list of
  code points (natural numbers): \<open>len\<close>, slicing and \<open>split\<close> count code points, not
  bytes. \<open>asc\<close> turns an ASCII literal into such a list.

  The Unicode tables are modelled exactly on U+0000..U+00FF; \<open>is_space\<close> is the whole
  of Python's whitespace set. Above U+00FF a code point counts as caseless, as no digit
  and as no word character (true of the en dash and of all punctuation there; letters and
  digits of other scripts are outside the model).
\<close>

type_synonym pystr = "nat list"

definition asc :: "string \<Rightarrow> pystr" where
  "asc s = map of_char s"

text \<open>\<open>str.isspace\<close> of one code point.\<close>

definition is_space :: "nat \<Rightarrow> bool" where
  "is_space c \<longleftrightarrow>
     (9 \<le> c \<and> c \<le> 13) \<or> (28 \<le> c \<and> c \<le> 32) \<or> c = 133 \<or> c = 160 \<or> c = 5760 \<or>
     (8192 \<le> c \<and> c \<le> 8202) \<or> c = 8232 \<or> c = 8233 \<or> c = 8239 \<or> c = 8287 \<or> c = 12288"

text \<open>\<open>str.lower\<close>: A..Z and the capital letters of Latin-1 (U+00C0..U+00DE but the
  multiplication sign U+00D7) move up by 32.\<close>

definition lower_cp :: "nat \<Rightarrow> nat" where
  "lower_cp c =
     (if (65 \<le> c \<and> c \<le> 90) \<or> (192 \<le> c \<and> c \<le> 222 \<and> c \<noteq> 215) then c + 32 else c)"

definition lower :: "pystr \<Rightarrow> pystr" where
  "lower s = map lower_cp s"

text \<open>\<open>s.strip()\<close>, \<open>s.rstrip(chars)\<close>, \<open>s.endswith(t)\<close>, \<open>s.startswith(t)\<close> and \<open>t in s\<close>.\<close>

definition lstrip :: "pystr \<Rightarrow> pystr" where
  "lstrip s = dropWhile is_space s"

definition rstrip :: "pystr \<Rightarrow> pystr" where
  "rstrip s = rev (dropWhile is_space (rev s))"

definition strip :: "pystr \<Rightarrow> pystr" where
  "strip s = rstrip (lstrip s)"

definition rstrip_chars :: "pystr \<Rightarrow> pystr \<Rightarrow> pystr" where
  "rstrip_chars s cs = rev (dropWhile (\<lambda>c. c \<in> set cs) (rev s))"

definition startswith :: "pystr \<Rightarrow> pystr \<Rightarrow> bool" where
  "startswith s t \<longleftrightarrow> take (length t) s = t"

definition endswith :: "pystr \<Rightarrow> pystr \<Rightarrow> bool" where
  "endswith s t \<longleftrightarrow> length t \<le> length s \<and> drop (length s - length t) s = t"

fun py_in :: "pystr \<Rightarrow> pystr \<Rightarrow> bool" where
  "py_in t [] = (t = [])"
| "py_in t (c # s) = (startswith (c # s) t \<or> py_in t s)"

section \<open>Site filter\<close>

definition SOCIAL_DOMAINS :: "pystr list" where
  "SOCIAL_DOMAINS = map asc
     [''facebook.com'', ''instagram.com'', ''linkedin.com'', ''twitter.com'', ''x.com'',
      ''youtube.com'', ''yelp.com'', ''angieslist.com'', ''houzz.com'', ''pinterest.com'',
      ''tiktok.com'']"

text \<open>
  \<open>urlparse\<close> is the standard library's: \<open>urlparse(u).netloc\<close> is the parameter
  \<open>netloc\<close>, which gives \<open>None\<close> where \<open>urlparse\<close> raises (\<open>ValueError\<close> on a
  malformed bracketed host). \<open>domain_of\<close> catches the exception.
\<close>

type_synonym urlparse = "pystr \<Rightarrow> pystr option"

definition domain_of :: "urlparse \<Rightarrow> pystr \<Rightarrow> pystr" where
  "domain_of netloc u = (case netloc u of Some n \<Rightarrow> lower n | None \<Rightarrow> [])"

definition looks_like_business_site :: "urlparse \<Rightarrow> pystr \<Rightarrow> bool" where
  "looks_like_business_site netloc u =
     (let d = domain_of netloc u in
      if d = [] then False
      else if list_ex (\<lambda>s. py_in s d) SOCIAL_DOMAINS then False
      else endswith d (asc ''.com'') \<or> endswith d (asc ''.net'') \<or> endswith d (asc ''.org''))"

text \<open>
  For concrete runs: the network location \<open>urlsplit\<close> finds in a plain URL
  \<open>scheme://netloc/path?query#fragment\<close>. A scheme is what stands before the first colon,
  if that is a letter followed by letters, digits, \<open>+\<close>, \<open>-\<close> and \<open>.\<close>; the network
  location is the text between \<open>//\<close>, where the rest begins with it, and the first of
  \<open>/\<close>, \<open>?\<close> and \<open>#\<close>.
\<close>

definition is_scheme :: "pystr \<Rightarrow> bool" where
  "is_scheme s \<longleftrightarrow>
     (case s of
        [] \<Rightarrow> False
      | c # _ \<Rightarrow>
          ((65 \<le> c \<and> c \<le> 90) \<or> (97 \<le> c \<and> c \<le> 122)) \<and>
          list_all (\<lambda>c. (65 \<le> c \<and> c \<le> 90) \<or> (97 \<le> c \<and> c \<le> 122) \<or> (48 \<le> c \<and> c \<le> 57) \<or>
                         c = 43 \<or> c = 45 \<or> c = 46) s)"

definition plain_netloc :: urlparse where
  "plain_netloc u =
     (let scheme = takeWhile (\<lambda>c. c \<noteq> 58) u;
          r = (if 58 \<in> set u \<and> is_scheme scheme then drop (length scheme + 1) u else u)
      in if startswith r (asc ''//'')
         then Some (takeWhile (\<lambda>c. c \<noteq> 47 \<and> c \<noteq> 63 \<and> c \<noteq> 35) (drop 2 r))
         else Some [])"

section \<open>Lead store\<close>

record lead =
  Company :: pystr
  Email :: pystr
  Website :: pystr
  Phone :: pystr
  Source :: pystr

text \<open>
  \<open>st.session_state.leads\<close> is a data frame whose rows are appended at index \<open>len(df)\<close>:
  a list of leads in insertion order. An argument that may be \<open>None\<close> is an option;
  \<open>x or ""\<close> is \<open>py_or_empty\<close>, and \<open>not email\<close> holds of \<open>None\<close> and of \<open>""\<close>.
\<close>

definition py_or_empty :: "pystr option \<Rightarrow> pystr" where
  "py_or_empty x = (case x of None \<Rightarrow> [] | Some s \<Rightarrow> s)"

definition truthy :: "pystr option \<Rightarrow> bool" where
  "truthy x \<longleftrightarrow> (case x of None \<Rightarrow> False | Some s \<Rightarrow> s \<noteq> [])"

definition upsert_lead ::
  "pystr option \<Rightarrow> pystr option \<Rightarrow> pystr \<Rightarrow> pystr option \<Rightarrow> pystr \<Rightarrow> lead list \<Rightarrow> lead list" where
  "upsert_lead name email website phone source df =
     (case email of
        None \<Rightarrow> df
      | Some e \<Rightarrow>
          if e = [] then df
          else let lowers = set (map (\<lambda>r. lower (Email r)) df) in
            if lower e \<in> lowers then df
            else df @ [\<lparr>Company = py_or_empty name, Email = strip e, Website = website,
                         Phone = py_or_empty phone, Source = source\<rparr>])"

section \<open>Effects\<close>

text \<open>
  What the handlers do to the outside world is a log of events, in the order they happen:
  a page probed for contact details (with the address the extractor found there), a call
  of \<open>time.sleep\<close> (in tenths of a second), and a message handed to
  \<open>send_email_smtp\<close> (with whether the call returned, \<open>True\<close>, or raised).
  The outside world itself is a state of any type \<open>'w\<close> that each call may change.
\<close>

datatype event = Probe pystr "pystr option" | Sleep nat | Mail pystr bool

fun mail_to :: "event \<Rightarrow> pystr list" where
  "mail_to (Mail e ok) = [e]"
| "mail_to _ = []"

fun mail_sent :: "event \<Rightarrow> pystr list" where
  "mail_sent (Mail e ok) = (if ok then [e] else [])"
| "mail_sent _ = []"

definition recipients :: "event list \<Rightarrow> pystr list" where
  "recipients log = concat (map mail_to log)"

definition delivered :: "event list \<Rightarrow> pystr list" where
  "delivered log = concat (map mail_sent log)"

section \<open>Campaign\<close>

definition render_html :: "pystr \<Rightarrow> pystr \<Rightarrow> pystr \<Rightarrow> pystr" where
  "render_html greeting body signature = greeting @ asc ''<br/>'' @ body @ signature"

text \<open>
  \<open>send_email_smtp\<close> talks to the SMTP server: it is the parameter \<open>send\<close>, from the
  recipient, the subject, the HTML and the world to whether it returned and the new world.
  The loop of the handler "Send campaign now": \<open>sent\<close> counts, \<open>daily_cap\<close> is the
  integer of the number input, and a call that raises is skipped (\<open>continue\<close>).
\<close>

type_synonym 'w smtp = "pystr \<Rightarrow> pystr \<Rightarrow> pystr \<Rightarrow> 'w \<Rightarrow> bool \<times> 'w"

fun campaign_loop ::
  "'w smtp \<Rightarrow> pystr \<Rightarrow> pystr \<Rightarrow> int \<Rightarrow> pystr list \<Rightarrow> nat \<times> event list \<times> 'w \<Rightarrow> nat \<times> event list \<times> 'w"
  where
  "campaign_loop send subject html daily_cap [] st = st"
| "campaign_loop send subject html daily_cap (e # es) (sent, log, w) =
     (if int sent \<ge> daily_cap then (sent, log, w)
      else case send e subject html w of
        (True, w') \<Rightarrow>
          campaign_loop send subject html daily_cap es (sent + 1, log @ [Mail e True, Sleep 3], w')
      | (False, w') \<Rightarrow>
          campaign_loop send subject html daily_cap es (sent, log @ [Mail e False], w'))"

definition send_campaign ::
  "'w smtp \<Rightarrow> pystr \<Rightarrow> pystr \<Rightarrow> pystr \<Rightarrow> pystr \<Rightarrow> int \<Rightarrow> lead list \<Rightarrow> 'w \<Rightarrow> nat \<times> event list \<times> 'w"
  where
  "send_campaign send subject greeting body signature daily_cap df w =
     (let emails = map Email df in
      campaign_loop send subject (render_html greeting body signature) daily_cap emails (0, [], w))"

text \<open>For concrete runs: a server that accepts every message, and five leads.\<close>

definition accept_all :: "unit smtp" where
  "accept_all to_email subject html w = (True, w)"

definition lead_of :: "string \<Rightarrow> lead" where
  "lead_of e = \<lparr>Company = [], Email = asc e, Website = [], Phone = [], Source = asc ''import''\<rparr>"

definition five_leads :: "lead list" where
  "five_leads = map lead_of [''a@x.com'', ''b@x.com'', ''c@x.com'', ''d@x.com'', ''e@x.com'']"

section \<open>The key argument of the generic SERP branch\<close>

text \<open>
  The call site passes \<open>key=SERRP_KEY if (SERRP_KEY:=SERP_KEY) else ""\<close>. The order in
  which Python evaluates this expression is the whole matter, so the expression is kept as
  syntax (the node names are those of Python's \<open>ast\<close>: \<open>IfExp (test, body, orelse)\<close> for
  \<open>body if test else orelse\<close>, \<open>NamedExpr\<close> for \<open>:=\<close>) and evaluated as the language
  reference says: a conditional expression evaluates its condition first, an assignment
  expression binds its target in the enclosing scope, and a name that is not bound raises
  \<open>NameError\<close>.
\<close>

datatype expr = Name string | Constant pystr | NamedExpr string expr | IfExp expr expr expr

datatype py_exception = NameError string

type_synonym globals = "string \<Rightarrow> pystr option"

fun eval :: "expr \<Rightarrow> globals \<Rightarrow> py_exception + (pystr \<times> globals)" where
  "eval (Name x) g = (case g x of None \<Rightarrow> Inl (NameError x) | Some v \<Rightarrow> Inr (v, g))"
| "eval (Constant v) g = Inr (v, g)"
| "eval (NamedExpr x e) g =
     (case eval e g of Inl err \<Rightarrow> Inl err | Inr (v, g') \<Rightarrow> Inr (v, g'(x \<mapsto> v)))"
| "eval (IfExp test body orelse) g =
     (case eval test g of
        Inl err \<Rightarrow> Inl err
      | Inr (v, g') \<Rightarrow> if v \<noteq> [] then eval body g' else eval orelse g')"

definition key_argument :: expr where
  "key_argument =
     IfExp (NamedExpr ''SERRP_KEY'' (Name ''SERP_KEY'')) (Name ''SERRP_KEY'') (Constant [])"

definition passed_key :: "globals \<Rightarrow> py_exception + pystr" where
  "passed_key g = (case eval key_argument g of Inl err \<Rightarrow> Inl err | Inr (v, g') \<Rightarrow> Inr v)"

section \<open>Regular expressions\<close>

text \<open>
  Both patterns of the program are sequences of two kinds of items: the assertion \<open>\b\<close>,
  and a character class repeated greedily between a least and a greatest number of times
  (\<open>x\<close> is once, \<open>x?\<close> at most once, \<open>x+\<close> at least once, \<open>x{3}\<close> three times,
  \<open>x{2,}\<close> at least twice). \<open>re\<close> matches such a sequence by backtracking: each
  repetition first takes as many characters as it can and gives them back one at a time
  until the rest of the pattern matches.

  For \<open>str\<close> patterns the classes are Unicode's: \<open>\s\<close> is \<open>is_space\<close>, \<open>\d\<close> the
  decimal digits, \<open>\w\<close> the alphanumeric characters and the underscore.
\<close>

definition is_digit :: "nat \<Rightarrow> bool" where
  "is_digit c \<longleftrightarrow> 48 \<le> c \<and> c \<le> 57"

definition is_ascii_alpha :: "nat \<Rightarrow> bool" where
  "is_ascii_alpha c \<longleftrightarrow> (65 \<le> c \<and> c \<le> 90) \<or> (97 \<le> c \<and> c \<le> 122)"

definition is_word :: "nat \<Rightarrow> bool" where
  "is_word c \<longleftrightarrow>
     is_ascii_alpha c \<or> is_digit c \<or> c = 95 \<or>
     c = 170 \<or> c = 178 \<or> c = 179 \<or> c = 181 \<or> c = 185 \<or> c = 186 \<or>
     (188 \<le> c \<and> c \<le> 190) \<or> (192 \<le> c \<and> c \<le> 214) \<or> (216 \<le> c \<and> c \<le> 246) \<or>
     (248 \<le> c \<and> c \<le> 255)"

datatype atom = WordBoundary | Repeat "nat \<Rightarrow> bool" nat "nat option"

definition one :: "(nat \<Rightarrow> bool) \<Rightarrow> atom" where
  "one cls = Repeat cls 1 (Some 1)"

definition lit :: "char \<Rightarrow> atom" where
  "lit ch = one (\<lambda>c. c = of_char ch)"

definition optional :: "(nat \<Rightarrow> bool) \<Rightarrow> atom" where
  "optional cls = Repeat cls 0 (Some 1)"

definition exactly :: "nat \<Rightarrow> (nat \<Rightarrow> bool) \<Rightarrow> atom" where
  "exactly n cls = Repeat cls n (Some n)"

definition at_least :: "nat \<Rightarrow> (nat \<Rightarrow> bool) \<Rightarrow> atom" where
  "at_least n cls = Repeat cls n None"

definition one_of :: "string \<Rightarrow> nat \<Rightarrow> bool" where
  "one_of chars c \<longleftrightarrow> c \<in> set (asc chars)"

text \<open>\<open>\b\<close> between the character before the position (if any) and the one at it (if
  any): exactly one of the two is a word character.\<close>

definition at_boundary :: "nat option \<Rightarrow> pystr \<Rightarrow> bool" where
  "at_boundary prev s \<longleftrightarrow>
     (case prev of None \<Rightarrow> False | Some c \<Rightarrow> is_word c) \<noteq>
     (case s of [] \<Rightarrow> False | c # _ \<Rightarrow> is_word c)"

text \<open>\<open>try_counts f lo n\<close>: the first of \<open>n, n - 1, ..., lo\<close> on which \<open>f\<close> succeeds.\<close>

fun try_counts :: "(nat \<Rightarrow> nat option) \<Rightarrow> nat \<Rightarrow> nat \<Rightarrow> nat option" where
  "try_counts f lo 0 = (if lo = 0 then f 0 else None)"
| "try_counts f lo (Suc n) =
     (if Suc n < lo then None
      else case f (Suc n) of Some r \<Rightarrow> Some r | None \<Rightarrow> try_counts f lo n)"

definition prev_after :: "nat option \<Rightarrow> pystr \<Rightarrow> nat \<Rightarrow> nat option" where
  "prev_after prev s n = (if n = 0 then prev else Some (s ! (n - 1)))"

text \<open>
  \<open>match_here items prev s\<close>: the pattern matched at the position whose rest is \<open>s\<close> and
  whose previous character is \<open>prev\<close>; the result is the length of the match.
\<close>

primrec match_here :: "atom list \<Rightarrow> nat option \<Rightarrow> pystr \<Rightarrow> nat option" where
  "match_here [] = (\<lambda>prev s. Some 0)"
| "match_here (a # items) = (\<lambda>prev s.
     case a of
       WordBoundary \<Rightarrow> if at_boundary prev s then match_here items prev s else None
     | Repeat cls lo hi \<Rightarrow>
         let run = length (takeWhile cls s);
             most = (case hi of None \<Rightarrow> run | Some h \<Rightarrow> min h run)
         in try_counts
              (\<lambda>n. map_option (\<lambda>m. n + m) (match_here items (prev_after prev s n) (drop n s)))
              lo most)"

text \<open>\<open>pattern.match(s)\<close>, as a truth value: a match at the start of \<open>s\<close>.\<close>

definition re_match :: "atom list \<Rightarrow> pystr \<Rightarrow> bool" where
  "re_match items s \<longleftrightarrow> match_here items None s \<noteq> None"

text \<open>
  \<open>pattern.findall(s)\<close> for a pattern with no group: the matches from left to right, each
  search starting where the last match ended. (After an empty match the search moves on by
  one character; neither pattern of the program matches the empty string.)
\<close>

function findall_from :: "atom list \<Rightarrow> nat option \<Rightarrow> pystr \<Rightarrow> pystr list" where
  "findall_from items prev s =
     (case match_here items prev s of
        None \<Rightarrow> (case s of [] \<Rightarrow> [] | c # t \<Rightarrow> findall_from items (Some c) t)
      | Some n \<Rightarrow>
          take n s #
          (if n = 0 \<or> s = [] then (case s of [] \<Rightarrow> [] | c # t \<Rightarrow> findall_from items (Some c) t)
           else findall_from items (prev_after prev s n) (drop n s)))"
  by pat_completeness auto
termination
  by (relation "measure (\<lambda>(items, prev, s). length s)") auto

declare findall_from.simps [simp del]

definition findall :: "atom list \<Rightarrow> pystr \<Rightarrow> pystr list" where
  "findall items s = findall_from items None s"

definition EMAIL_RE :: "atom list" where
  "EMAIL_RE =
     [WordBoundary,
      at_least 1 (\<lambda>c. is_ascii_alpha c \<or> is_digit c \<or> one_of ''._%+-'' c),
      lit CHR ''@'',
      at_least 1 (\<lambda>c. is_ascii_alpha c \<or> is_digit c \<or> one_of ''.-'' c),
      lit CHR ''.'',
      at_least 2 is_ascii_alpha,
      WordBoundary]"

definition PHONE_RE :: "atom list" where
  "PHONE_RE =
     [optional (one_of ''+''),
      optional (one_of ''1''),
      optional (\<lambda>c. is_space c \<or> one_of ''-.('' c),
      exactly 3 is_digit,
      optional (\<lambda>c. one_of '')'' c \<or> is_space c \<or> one_of ''-.)'' c),
      optional is_space,
      exactly 3 is_digit,
      optional is_space,
      optional (\<lambda>c. one_of ''-.'' c \<or> is_space c),
      exactly 4 is_digit]"

section \<open>Extraction\<close>

text \<open>\<open>s.split(sep)\<close> for a separator that is not empty: \<open>split_from sep cur s\<close> has read
  \<open>cur\<close> of the current part and has \<open>s\<close> left.\<close>

function split_from :: "pystr \<Rightarrow> pystr \<Rightarrow> pystr \<Rightarrow> pystr list" where
  "split_from sep cur s =
     (if sep \<noteq> [] \<and> startswith s sep then cur # split_from sep [] (drop (length sep) s)
      else case s of [] \<Rightarrow> [cur] | c # t \<Rightarrow> split_from sep (cur @ [c]) t)"
  by pat_completeness auto
termination
proof (relation "measure (\<lambda>(sep, cur, s). length s)")
  fix sep cur s :: pystr
  assume "sep \<noteq> [] \<and> startswith s sep"
  then have "s \<noteq> []"
    by (auto simp: startswith_def)
  with \<open>sep \<noteq> [] \<and> startswith s sep\<close>
  show "((sep, [], drop (length sep) s), (sep, cur, s)) \<in> measure (\<lambda>(sep, cur, s). length s)"
    by simp
qed auto

declare split_from.simps [simp del]

definition py_split :: "pystr \<Rightarrow> pystr \<Rightarrow> pystr list" where
  "py_split s sep = split_from sep [] s"

definition BAR_SEP :: pystr where
  "BAR_SEP = asc '' | ''"

text \<open>The separator of the second \<open>split\<close>: a blank, the en dash U+2013, a blank.\<close>

definition DASH_SEP :: pystr where
  "DASH_SEP = [32, 8211, 32]"

text \<open>
  What the program reads off a parsed page (\<open>BeautifulSoup(html, "html.parser")\<close>, a
  library): \<open>soup.title.string\<close> (\<open>None\<close> when there is no title tag or it has no single
  string), \<open>soup.find("h1").get_text(strip=True)\<close> (\<open>None\<close> when there is no h1), and
  \<open>soup.get_text(" ", strip=True)\<close>.
\<close>

record soup =
  title_string :: "pystr option"
  h1_text :: "pystr option"
  get_text :: pystr

text \<open>
  \<open>HTTP.get\<close> either raises (a timeout, a refused connection) or returns a response
  with a status and a body; \<open>raise_for_status\<close> raises for a status from 400 to 599.
\<close>

datatype 'a http = Failed | Response nat 'a

definition raise_for_status :: "nat \<Rightarrow> bool" where
  "raise_for_status status \<longleftrightarrow> 400 \<le> status \<and> status < 600"

definition company_of :: "soup \<Rightarrow> pystr option" where
  "company_of sp =
     (let company =
        (case title_string sp of
           None \<Rightarrow> None
         | Some t \<Rightarrow>
             if t \<noteq> []
             then Some (take 120 (strip (hd (py_split (hd (py_split t BAR_SEP)) DASH_SEP))))
             else None)
      in if \<not> truthy company
         then (case h1_text sp of
                 None \<Rightarrow> company
               | Some h \<Rightarrow> if h \<noteq> [] then Some (take 120 h) else company)
         else company)"

definition first_or_none :: "pystr list \<Rightarrow> pystr option" where
  "first_or_none xs = (case xs of [] \<Rightarrow> None | x # _ \<Rightarrow> Some x)"

definition extract_company_info :: "soup http \<Rightarrow> pystr option \<times> pystr option \<times> pystr option" where
  "extract_company_info r =
     (case r of
        Failed \<Rightarrow> (None, None, None)
      | Response status sp \<Rightarrow>
          if raise_for_status status then (None, None, None)
          else let text = get_text sp;
                   emails = findall EMAIL_RE text;
                   phones = findall PHONE_RE text
               in (company_of sp, first_or_none emails, first_or_none phones))"

text \<open>For concrete runs: the page whose title is \<open>Acme Co | Flooring\<close> and whose body
  holds an address and a phone number.\<close>

definition acme_page :: soup where
  "acme_page =
     \<lparr>title_string = Some (asc ''Acme Co | Flooring''), h1_text = None,
      get_text = asc ''Acme Co | Flooring Email contact@acme.com or call (305) 123-4567''\<rparr>"

section \<open>Search and extract\<close>

definition try_candidate_pages :: "pystr \<Rightarrow> pystr list" where
  "try_candidate_pages base_url =
     (let root = rstrip_chars base_url (asc ''/'') in
      [base_url, root @ asc ''/contact'', root @ asc ''/contact-us'', root @ asc ''/about'',
       root @ asc ''/team''])"

text \<open>
  The probe loop of the handler "Search & Extract". Its state is the lead store, the
  counter \<open>added\<close>, the events so far and the world. Fetching a page
  (\<open>HTTP.get(url, timeout=15)\<close> and the parse of \<open>r.text\<close>) is the parameter \<open>fetch\<close>.
  \<open>rate_delay\<close> is the slider's value in tenths of a second, so \<open>rate_delay or 1.0\<close> is
  ten tenths when the slider stands at zero.
\<close>

record 'w scan =
  leads :: "lead list"
  added :: nat
  events :: "event list"
  world :: 'w

type_synonym 'w fetcher = "pystr \<Rightarrow> 'w \<Rightarrow> soup http \<times> 'w"

definition delay_or_default :: "nat \<Rightarrow> nat" where
  "delay_or_default rate_delay = (if rate_delay = 0 then 10 else rate_delay)"

definition source_of :: "pystr \<Rightarrow> pystr" where
  "source_of provider = (if startswith provider (asc ''Bing'') then asc ''bing'' else asc ''serp'')"

fun probe_pages ::
  "'w fetcher \<Rightarrow> nat \<Rightarrow> pystr \<Rightarrow> pystr \<Rightarrow> pystr list \<Rightarrow> 'w scan \<Rightarrow> 'w scan" where
  "probe_pages fetch rate_delay provider base [] st = st"
| "probe_pages fetch rate_delay provider base (target # rest) st =
     (case fetch target (world st) of (r, w') \<Rightarrow>
      case extract_company_info r of (name, email, phone) \<Rightarrow>
        let st1 = st\<lparr>events := events st @ [Probe target email], world := w'\<rparr> in
        if truthy email
        then st1\<lparr>leads := upsert_lead name email base phone (source_of provider) (leads st1),
                 added := added st1 + 1\<rparr>
        else probe_pages fetch rate_delay provider base rest
               (st1\<lparr>events := events st1 @ [Sleep (delay_or_default rate_delay)]\<rparr>))"

fun scan_sites :: "'w fetcher \<Rightarrow> nat \<Rightarrow> pystr \<Rightarrow> pystr list \<Rightarrow> 'w scan \<Rightarrow> 'w scan" where
  "scan_sites fetch rate_delay provider [] st = st"
| "scan_sites fetch rate_delay provider (base # urls) st =
     scan_sites fetch rate_delay provider urls
       (probe_pages fetch rate_delay provider base (try_candidate_pages base) st)"

definition search_and_extract ::
  "'w fetcher \<Rightarrow> nat \<Rightarrow> pystr \<Rightarrow> pystr list \<Rightarrow> lead list \<Rightarrow> 'w \<Rightarrow> 'w scan" where
  "search_and_extract fetch rate_delay provider urls df w =
     scan_sites fetch rate_delay provider urls \<lparr>leads = df, added = 0, events = [], world = w\<rparr>"

text \<open>The probes of a log that found an address.\<close>

fun is_hit :: "event \<Rightarrow> bool" where
  "is_hit (Probe t e) = truthy e"
| "is_hit _ = False"

text \<open>For concrete runs: a web that does not change, given by the page behind each URL.\<close>

definition static_web :: "(pystr \<Rightarrow> soup http) \<Rightarrow> unit fetcher" where
  "static_web pages url w = (pages url, w)"

definition acme_web :: "pystr \<Rightarrow> soup http" where
  "acme_web url =
     (if url = asc ''https://acme.com/contact'' \<or> url = asc ''https://acme-flooring.com''
      then Response 200 acme_page
      else Response 404 \<lparr>title_string = None, h1_text = None, get_text = []\<rparr>)"

section \<open>Extraction, as specified\<close>

text \<open>
  The words of the specification, to compare the program with. A title "truncated at the
  first separator" is \<open>before_first seps t\<close>: what stands before the first place where one
  of the separators begins.
\<close>

fun before_first :: "pystr list \<Rightarrow> pystr \<Rightarrow> pystr" where
  "before_first seps [] = []"
| "before_first seps (c # s) =
     (if list_ex (\<lambda>sep. startswith (c # s) sep) seps then [] else c # before_first seps s)"

definition title_name :: "soup \<Rightarrow> pystr" where
  "title_name sp =
     (case title_string sp of
        None \<Rightarrow> []
      | Some t \<Rightarrow> take 120 (strip (before_first [DASH_SEP] (before_first [BAR_SEP] t))))"

definition h1_name :: "soup \<Rightarrow> pystr" where
  "h1_name sp = (case h1_text sp of None \<Rightarrow> [] | Some h \<Rightarrow> take 120 h)"

text \<open>
  "The first match of a pattern in a text": \<open>match_at items text i\<close> is the match of the
  pattern at position \<open>i\<close> of the text, and the first match is the one at the least
  position that has one.
\<close>

definition match_at :: "atom list \<Rightarrow> pystr \<Rightarrow> nat \<Rightarrow> nat option" where
  "match_at items text i = match_here items (prev_after None text i) (drop i text)"

definition is_first_match :: "atom list \<Rightarrow> pystr \<Rightarrow> pystr option \<Rightarrow> bool" where
  "is_first_match items text r \<longleftrightarrow>
     (case r of
        None \<Rightarrow> \<forall>i \<le> length text. match_at items text i = None
      | Some e \<Rightarrow>
          \<exists>i n. i \<le> length text \<and> match_at items text i = Some n \<and> e = take n (drop i text) \<and>
                (\<forall>j < i. match_at items text j = None))"

text \<open>A title in which the en dash separator runs into the bar separator.\<close>

definition overlap_page :: soup where
  "overlap_page =
     \<lparr>title_string = Some (asc ''Acme '' @ [8211] @ asc '' | Home''), h1_text = None,
      get_text = asc ''Acme '' @ [8211] @ asc '' | Home''\<rparr>"

text \<open>The events of probes that found nothing, each followed by the delay.\<close>

fun site_events :: "nat \<Rightarrow> (pystr \<times> pystr option) list \<Rightarrow> event list" where
  "site_events d [] = []"
| "site_events d ((t, e) # ms) = Probe t e # Sleep d # site_events d ms"

definition two_sites :: "pystr list" where
  "two_sites = [asc ''https://acme.com'', asc ''https://acme-flooring.com'']"

section \<open>Export and import\<close>

text \<open>\<open>s.title()\<close>: a cased character is put in title case where the character before
  it is not cased, and in lower case where it is.\<close>

definition is_cased :: "nat \<Rightarrow> bool" where
  "is_cased c \<longleftrightarrow>
     is_ascii_alpha c \<or> c = 170 \<or> c = 181 \<or> c = 186 \<or>
     (192 \<le> c \<and> c \<le> 214) \<or> (216 \<le> c \<and> c \<le> 246) \<or> (248 \<le> c \<and> c \<le> 255)"

definition title_cp :: "nat \<Rightarrow> pystr" where
  "title_cp c =
     (if 97 \<le> c \<and> c \<le> 122 then [c - 32]
      else if c = 181 then [924]
      else if c = 223 then [83, 115]
      else if 224 \<le> c \<and> c \<le> 254 \<and> c \<noteq> 247 then [c - 32]
      else if c = 255 then [376]
      else [c])"

fun title_from :: "bool \<Rightarrow> pystr \<Rightarrow> pystr" where
  "title_from previous_is_cased [] = []"
| "title_from previous_is_cased (c # s) =
     (if previous_is_cased then [lower_cp c] else title_cp c) @ title_from (is_cased c) s"

definition title :: "pystr \<Rightarrow> pystr" where
  "title s = title_from False s"

text \<open>
  A data frame as \<open>pd.read_csv\<close> returns it: the column labels and the rows, in which a
  value is text, the missing value \<open>NaN\<close> (an empty field of the file), an integer or a
  boolean. (Other floating point values are not modelled.)
\<close>

datatype cell = CStr pystr | CNaN | CInt int | CBool bool

record frame =
  columns :: "pystr list"
  rows :: "cell list list"

text \<open>\<open>str\<close> of an integer.\<close>

fun digits :: "nat \<Rightarrow> pystr" where
  "digits n = (if n < 10 then [48 + n] else digits (n div 10) @ [48 + n mod 10])"

declare digits.simps [simp del]

definition str_int :: "int \<Rightarrow> pystr" where
  "str_int i = (if i < 0 then 45 # digits (nat (- i)) else digits (nat i))"

text \<open>
  \<open>row.get(label, "")\<close> on a row of the frame: the default when no column has the label,
  the value when one has, and a \<open>Series\<close> of the values when several have
  (\<open>c.strip().title()\<close> may give two columns one label). \<open>str(row.get(label, "") or "")\<close>
  then raises \<open>ValueError\<close> on a \<open>Series\<close>, whose truth value is ambiguous; \<open>NaN\<close> is a
  float that is not zero, so it is true and its \<open>str\<close> is \<open>nan\<close>.
\<close>

datatype import_error = ValueError | ParserError

definition row_get :: "pystr list \<Rightarrow> cell list \<Rightarrow> pystr \<Rightarrow> cell list" where
  "row_get cols row label = map snd (filter (\<lambda>cv. fst cv = label) (zip cols row))"

fun str_or_empty :: "cell list \<Rightarrow> import_error + pystr" where
  "str_or_empty [] = Inr []"
| "str_or_empty [CStr s] = Inr s"
| "str_or_empty [CNaN] = Inr (asc ''nan'')"
| "str_or_empty [CInt i] = Inr (if i = 0 then [] else str_int i)"
| "str_or_empty [CBool b] = Inr (if b then asc ''True'' else [])"
| "str_or_empty (v # w # vs) = Inl ValueError"

text \<open>
  The loop of the handler "Import leads.csv" over the rows of the frame. Its state is the
  lead store, the set \<open>existing\<close> and the counter \<open>imported\<close>. An exception leaves the
  loop and the handler reports \<open>Import failed\<close>; the rows appended before it stay.
\<close>

datatype import_report = Imported nat | ImportFailed

fun import_rows ::
  "pystr list \<Rightarrow> cell list list \<Rightarrow> lead list \<times> pystr set \<times> nat \<Rightarrow> lead list \<times> import_report"
  where
  "import_rows cols [] (df, existing, imported) = (df, Imported imported)"
| "import_rows cols (row # rest) (df, existing, imported) =
     (case str_or_empty (row_get cols row (asc ''Email'')) of
        Inl err \<Rightarrow> (df, ImportFailed)
      | Inr e \<Rightarrow>
          let email = strip e in
          if email = [] \<or> \<not> re_match EMAIL_RE email
          then import_rows cols rest (df, existing, imported)
          else if lower email \<in> existing
          then import_rows cols rest (df, existing, imported)
          else
            (case str_or_empty (row_get cols row (asc ''Company'')) of
               Inl err \<Rightarrow> (df, ImportFailed)
             | Inr company \<Rightarrow>
            (case str_or_empty (row_get cols row (asc ''Website'')) of
               Inl err \<Rightarrow> (df, ImportFailed)
             | Inr website \<Rightarrow>
            (case str_or_empty (row_get cols row (asc ''Phone'')) of
               Inl err \<Rightarrow> (df, ImportFailed)
             | Inr phone \<Rightarrow>
                 import_rows cols rest
                   (df @ [\<lparr>Company = take 120 company, Email = email, Website = website,
                            Phone = phone, Source = asc ''import''\<rparr>],
                    insert (lower email) existing, imported + 1)))))"

text \<open>The handler: \<open>read_csv\<close> gives a frame or raises (\<open>None\<close>).\<close>

definition import_leads :: "frame option \<Rightarrow> lead list \<Rightarrow> lead list \<times> import_report" where
  "import_leads read_csv df =
     (case read_csv of
        None \<Rightarrow> (df, ImportFailed)
      | Some new \<Rightarrow>
          let cols = map (\<lambda>c. title (strip c)) (columns new);
              existing = set (map (\<lambda>r. lower (Email r)) df)
          in import_rows cols (rows new) (df, existing, 0))"

text \<open>
  The download is offered for a store that is not empty, and is \<open>df.to_csv(index=False)\<close>.
  What matters of the CSV text is the frame that \<open>read_csv\<close> makes of it again: the five
  columns, and for each lead a row in which a field that was written empty, or as one of
  the markers pandas reads as missing, comes back as \<open>NaN\<close>, and any other as its text.
  (Where every field of a column reads as a number pandas types it so; an address that the
  import accepts holds an \<open>@\<close>, so this never concerns the column of addresses, and such
  fields are left as text here.)
\<close>

definition NA_VALUES :: "pystr list" where
  "NA_VALUES = map asc
     ['''', ''#N/A'', ''#N/A N/A'', ''#NA'', ''-1.#IND'', ''-1.#QNAN'', ''-NaN'', ''-nan'',
      ''1.#IND'', ''1.#QNAN'', ''<NA>'', ''N/A'', ''NA'', ''NULL'', ''NaN'', ''None'', ''n/a'',
      ''nan'', ''null'']"

definition read_field :: "pystr \<Rightarrow> cell" where
  "read_field s = (if s \<in> set NA_VALUES then CNaN else CStr s)"

definition LEAD_COLUMNS :: "pystr list" where
  "LEAD_COLUMNS = map asc [''Company'', ''Email'', ''Website'', ''Phone'', ''Source'']"

definition read_back :: "lead list \<Rightarrow> frame" where
  "read_back df =
     \<lparr>columns = LEAD_COLUMNS,
      rows = map (\<lambda>r. map read_field [Company r, Email r, Website r, Phone r, Source r]) df\<rparr>"


text \<open>What the import asks of an address, and a store in which every address passes it
  and no two are equal but for case.\<close>

definition accepted :: "pystr \<Rightarrow> bool" where
  "accepted e \<longleftrightarrow> strip e = e \<and> e \<noteq> [] \<and> re_match EMAIL_RE e"



definition bare_page :: soup where
  "bare_page = \<lparr>title_string = None, h1_text = None, get_text = asc ''contact@acme.com''\<rparr>"


definition bare_web :: "pystr \<Rightarrow> soup http" where
  "bare_web url = Response 200 bare_page"

text \<open>The frame \<open>read_csv\<close> makes of the file
  \<open>Company,Email,Website,Phone,Source\<close> / \<open>,contact@acme.com,https://acme.com,,bing\<close>.\<close>

definition blank_fields_frame :: frame where
  "blank_fields_frame =
     \<lparr>columns = LEAD_COLUMNS,
      rows = [[CNaN, CStr (asc ''contact@acme.com''), CStr (asc ''https://acme.com''), CNaN,
               CStr (asc ''bing'')]]\<rparr>"

section \<open>Search providers\<close>

text \<open>
  What \<open>r.json()\<close> returns: a JSON value as Python holds it. (A number is an integer
  here; the adapters only ever test a number for being a string, a list or a dict, and for
  its truth.) A dict is the list of its items, looked up by key.
\<close>

datatype json =
  JNull | JBool bool | JNum int | JStr pystr | JList "json list" | JDict "(pystr \<times> json) list"

fun json_truthy :: "json \<Rightarrow> bool" where
  "json_truthy JNull = False"
| "json_truthy (JBool b) = b"
| "json_truthy (JNum i) = (i \<noteq> 0)"
| "json_truthy (JStr s) = (s \<noteq> [])"
| "json_truthy (JList xs) = (xs \<noteq> [])"
| "json_truthy (JDict kvs) = (kvs \<noteq> [])"

text \<open>
  Each of the following is one Python operation on such a value. It gives \<open>None\<close> where
  Python raises (\<open>AttributeError\<close> for \<open>.get\<close> on what is no dict, \<open>TypeError\<close> for
  iterating, indexing or testing membership in what does not support it, \<open>KeyError\<close> for
  a missing key): both adapters catch every \<open>Exception\<close> alike.
\<close>

fun py_get :: "json \<Rightarrow> pystr \<Rightarrow> json \<Rightarrow> json option" where
  "py_get (JDict kvs) k dflt = Some (case map_of kvs k of None \<Rightarrow> dflt | Some v \<Rightarrow> v)"
| "py_get _ k dflt = None"

fun py_iter :: "json \<Rightarrow> json list option" where
  "py_iter (JList xs) = Some xs"
| "py_iter (JDict kvs) = Some (map (\<lambda>kv. JStr (fst kv)) kvs)"
| "py_iter (JStr s) = Some (map (\<lambda>c. JStr [c]) s)"
| "py_iter _ = None"

fun py_contains :: "pystr \<Rightarrow> json \<Rightarrow> bool option" where
  "py_contains k (JDict kvs) = Some (map_of kvs k \<noteq> None)"
| "py_contains k (JList xs) = Some (JStr k \<in> set xs)"
| "py_contains k (JStr s) = Some (py_in k s)"
| "py_contains k _ = None"

fun py_item :: "json \<Rightarrow> pystr \<Rightarrow> json option" where
  "py_item (JDict kvs) k = map_of kvs k"
| "py_item _ k = None"

text \<open>\<open>xs[:count]\<close>, also for a negative count.\<close>

definition slice_to :: "int \<Rightarrow> 'a list \<Rightarrow> 'a list" where
  "slice_to count xs =
     (if 0 \<le> count then take (nat count) xs else take (length xs - nat (- count)) xs)"

text \<open>\<open>u and looks_like_business_site(u)\<close> for an entry of the response: \<open>urlparse\<close>
  raises on what is no string, and \<open>domain_of\<close> turns that into the empty domain.\<close>

fun business_url :: "urlparse \<Rightarrow> json \<Rightarrow> pystr list" where
  "business_url netloc (JStr u) = (if u \<noteq> [] \<and> looks_like_business_site netloc u then [u] else [])"
| "business_url netloc _ = []"

text \<open>
  A request as the adapters build it, and the client: \<open>HTTP.get\<close> and \<open>HTTP.post\<close> are
  the parameter \<open>http\<close>, from the request to a failure (the call raised: timeout, no
  connection) or a response with its status and what \<open>r.json()\<close> makes of its body
  (\<open>None\<close> when the body is no JSON and \<open>r.json()\<close> raises).
\<close>

datatype param = PStr pystr | PInt int

record request =
  http_method :: pystr
  url :: pystr
  headers :: "(pystr \<times> pystr) list"
  params :: "(pystr \<times> param) list"
  timeout :: nat

type_synonym client = "request \<Rightarrow> json option http"

definition dict_set :: "'k \<Rightarrow> 'v \<Rightarrow> ('k \<times> 'v) list \<Rightarrow> ('k \<times> 'v) list" where
  "dict_set k v d = (if k \<in> set (map fst d) then map (\<lambda>kv. if fst kv = k then (k, v) else kv) d
                     else d @ [(k, v)])"

definition json_of :: "json option http \<Rightarrow> json option" where
  "json_of r =
     (case r of
        Failed \<Rightarrow> None
      | Response status body \<Rightarrow> if raise_for_status status then None else body)"

text \<open>\<open>[v["url"] for v in values if v.get("url")]\<close> and
  \<open>[v.get("url") for v in values if v.get("url")]\<close> give the same list.\<close>

fun urls_of_values :: "json list \<Rightarrow> json list option" where
  "urls_of_values [] = Some []"
| "urls_of_values (v # vs) =
     do { u \<leftarrow> py_get v (asc ''url'') JNull;
          us \<leftarrow> urls_of_values vs;
          Some (if json_truthy u then u # us else us) }"

definition bing_request :: "pystr \<Rightarrow> pystr \<Rightarrow> int \<Rightarrow> request" where
  "bing_request query key count =
     \<lparr>http_method = asc ''GET'', url = asc ''https://api.bing.microsoft.com/v7.0/search'',
      headers = [(asc ''Ocp-Apim-Subscription-Key'', key)],
      params = [(asc ''q'', PStr query), (asc ''mkt'', PStr (asc ''en-US'')), (asc ''count'', PInt count)],
      timeout = 20\<rparr>"

definition search_bing_api :: "urlparse \<Rightarrow> client \<Rightarrow> pystr \<Rightarrow> pystr \<Rightarrow> int \<Rightarrow> pystr list" where
  "search_bing_api netloc http query key count =
     (if key = [] then []
      else case
        do { data \<leftarrow> json_of (http (bing_request query key count));
             pages \<leftarrow> py_get data (asc ''webPages'') JNull;
             value \<leftarrow> py_get (if json_truthy pages then pages else JDict []) (asc ''value'') (JList []);
             values \<leftarrow> py_iter value;
             urls \<leftarrow> urls_of_values values;
             Some (slice_to count (concat (map (business_url netloc) urls))) }
      of None \<Rightarrow> [] | Some urls \<Rightarrow> urls)"

text \<open>\<open>s.upper()\<close>.\<close>

definition upper_cp :: "nat \<Rightarrow> pystr" where
  "upper_cp c =
     (if 97 \<le> c \<and> c \<le> 122 then [c - 32]
      else if c = 181 then [924]
      else if c = 223 then [83, 83]
      else if 224 \<le> c \<and> c \<le> 254 \<and> c \<noteq> 247 then [c - 32]
      else if c = 255 then [376]
      else [c])"

definition upper :: "pystr \<Rightarrow> pystr" where
  "upper s = concat (map upper_cp s)"

text \<open>\<open>u = item.get("url") or item.get("link")\<close>, appended if it is true.\<close>

definition url_or_link :: "json \<Rightarrow> json list option" where
  "url_or_link item =
     do { u \<leftarrow> py_get item (asc ''url'') JNull;
          u' \<leftarrow> (if json_truthy u then Some u else py_get item (asc ''link'') JNull);
          Some (if json_truthy u' then [u'] else []) }"

fun urls_of_results :: "json list \<Rightarrow> json list option" where
  "urls_of_results [] = Some []"
| "urls_of_results (item # items) =
     do { u \<leftarrow> url_or_link item;
          us \<leftarrow> urls_of_results items;
          Some (u @ us) }"

fun urls_of_list :: "json list \<Rightarrow> json list option" where
  "urls_of_list [] = Some []"
| "urls_of_list (item # items) =
     do { u \<leftarrow> (case item of
                  JStr s \<Rightarrow> Some [item]
                | JDict kvs \<Rightarrow> url_or_link item
                | _ \<Rightarrow> Some []);
          us \<leftarrow> urls_of_list items;
          Some (u @ us) }"

definition urls_of_data :: "json \<Rightarrow> json list option" where
  "urls_of_data data =
     (case data of
        JDict kvs \<Rightarrow>
          do { has_value \<leftarrow>
                 (case map_of kvs (asc ''webPages'') of
                    None \<Rightarrow> Some False
                  | Some pages \<Rightarrow> py_contains (asc ''value'') pages);
               if has_value
               then do { pages \<leftarrow> py_item data (asc ''webPages'');
                         value \<leftarrow> py_item pages (asc ''value'');
                         values \<leftarrow> py_iter value;
                         urls_of_values values }
               else (case map_of kvs (asc ''results'') of
                       Some (JList items) \<Rightarrow> urls_of_results items
                     | _ \<Rightarrow> Some []) }
      | JList items \<Rightarrow> urls_of_list items
      | _ \<Rightarrow> Some [])"

definition serp_request ::
  "pystr \<Rightarrow> pystr \<Rightarrow> pystr \<Rightarrow> pystr \<Rightarrow> pystr \<Rightarrow> pystr option \<Rightarrow> pystr option \<Rightarrow> int \<Rightarrow> request" where
  "serp_request user_agent query base_url key meth auth_header key_param count =
     (let headers0 = [(asc ''User-Agent'', user_agent)];
          headers1 = (case auth_header of
                        None \<Rightarrow> headers0
                      | Some h \<Rightarrow> if h \<noteq> [] then dict_set h key headers0 else headers0);
          params0 = [(asc ''q'', PStr query), (asc ''count'', PInt count)];
          params1 = (case key_param of
                       None \<Rightarrow> params0
                     | Some p \<Rightarrow> if p \<noteq> [] then dict_set p (PStr key) params0 else params0)
      in \<lparr>http_method = (if upper meth = asc ''POST'' then asc ''POST'' else asc ''GET''),
          url = base_url, headers = headers1, params = params1, timeout = 25\<rparr>)"

definition search_serp_api ::
  "urlparse \<Rightarrow> client \<Rightarrow> pystr \<Rightarrow> pystr \<Rightarrow> pystr \<Rightarrow> pystr \<Rightarrow> pystr \<Rightarrow> pystr option \<Rightarrow>
   pystr option \<Rightarrow> int \<Rightarrow> pystr list" where
  "search_serp_api netloc http user_agent query base_url key meth auth_header key_param count =
     (if base_url = [] \<or> key = [] then []
      else case
        do { data \<leftarrow> json_of (http (serp_request user_agent query base_url key meth auth_header
                                      key_param count));
             urls \<leftarrow> urls_of_data data;
             Some (slice_to count (concat (map (business_url netloc) urls))) }
      of None \<Rightarrow> [] | Some urls \<Rightarrow> urls)"

text \<open>For concrete runs: a server that answers every request with the status 300 and a
  body in the shape of the Bing API, and one that answers 404 with the same body.\<close>

definition acme_results :: json where
  "acme_results =
     JDict [(asc ''webPages'', JDict [(asc ''value'',
       JList [JDict [(asc ''url'', JStr (asc ''https://acme.com''))]])])]"

definition answers :: "nat \<Rightarrow> client" where
  "answers status req = Response status (Some acme_results)"

section \<open>Operations on the lead store\<close>

text \<open>
  The two ways in which the program changes the lead store. A probe of the scan hands
  what the extractor read off the answer of a page to \<open>upsert_lead\<close>, together with the
  base URL and the source, when it found an address
  (\<open>name, email, phone = extract_company_info(target)\<close>, then
  \<open>if email: upsert_lead(name, email, base, phone, source)\<close>); this is the only call of
  \<open>upsert_lead\<close>. An import appends the rows of a file. \<open>run_ops\<close> is a sequence of
  them, from left to right.
\<close>

datatype store_op = Probed "soup http" pystr pystr | Import "frame option"

fun apply_op :: "store_op \<Rightarrow> lead list \<Rightarrow> lead list" where
  "apply_op (Probed r base source) df =
     (case extract_company_info r of (name, email, phone) \<Rightarrow>
        if truthy email then upsert_lead name email base phone source df else df)"
| "apply_op (Import read_csv) df = fst (import_leads read_csv df)"

definition run_ops :: "store_op list \<Rightarrow> lead list \<Rightarrow> lead list" where
  "run_ops ops df = foldl (\<lambda>d op. apply_op op d) df ops"

text \<open>For concrete runs: a page that shows the address of \<open>acme_page\<close> in capitals.\<close>

definition shout_page :: soup where
  "shout_page =
     \<lparr>title_string = Some (asc ''Other Co''), h1_text = None,
      get_text = asc ''Write to CONTACT@ACME.COM today''\<rparr>"

section \<open>The campaign, as specified\<close>

text \<open>
  To say what the loop must do without the loop: \<open>send_all\<close> hands the recipients to
  \<open>send_email_smtp\<close> one after the other and lists whether each call returned, and
  \<open>attempt_events\<close> are the events of one such call (the pause of 0.3 seconds follows a
  call that returned).
\<close>

fun send_all :: "'w smtp \<Rightarrow> pystr \<Rightarrow> pystr \<Rightarrow> pystr list \<Rightarrow> 'w \<Rightarrow> bool list \<times> 'w" where
  "send_all send subject html [] w = ([], w)"
| "send_all send subject html (e # es) w =
     (case send e subject html w of (ok, w1) \<Rightarrow>
      case send_all send subject html es w1 of (oks, w2) \<Rightarrow> (ok # oks, w2))"

fun attempt_events :: "pystr \<times> bool \<Rightarrow> event list" where
  "attempt_events (e, ok) = (if ok then [Mail e True, Sleep 3] else [Mail e False])"

text \<open>For concrete runs: a server that refuses one recipient, and one that refuses all.\<close>

definition refuse_b :: "unit smtp" where
  "refuse_b to_email subject html w = (to_email \<noteq> asc ''b@x.com'', w)"

definition refuse_all :: "unit smtp" where
  "refuse_all to_email subject html w = (False, w)"

section \<open>The probe loop, as specified\<close>

text \<open>
  What the probes of one site are compared with: \<open>fetch_all fetch pages w\<close> fetches the
  pages one after the other, from the world \<open>w\<close> on, and gives what the extractor reads
  off each answer (company, address, phone) and the world after the last of them.
\<close>

fun fetch_all ::
  "'w fetcher \<Rightarrow> pystr list \<Rightarrow> 'w \<Rightarrow> (pystr option \<times> pystr option \<times> pystr option) list \<times> 'w" where
  "fetch_all fetch [] w = ([], w)"
| "fetch_all fetch (t # ts) w =
     (case fetch t w of (r, w1) \<Rightarrow>
      case fetch_all fetch ts w1 of (xs, w2) \<Rightarrow> (extract_company_info r # xs, w2))"

section \<open>Properties of the strings\<close>

lemma startswith_prefix: "startswith s t \<longleftrightarrow> prefix t s"
  unfolding startswith_def prefix_def
  by (metis append_eq_conv_conj append_take_drop_id)

lemma endswith_suffix: "endswith s t \<longleftrightarrow> suffix t s"
proof
  assume "endswith s t"
  then have "drop (length s - length t) s = t"
    by (simp add: endswith_def)
  then show "suffix t s"
    by (metis suffix_drop)
next
  assume "suffix t s"
  then obtain zs where "s = zs @ t"
    by (auto simp: suffix_def)
  then show "endswith s t"
    by (simp add: endswith_def)
qed

lemma py_in_sublist: "py_in t s \<longleftrightarrow> sublist t s"
  by (induction s) (auto simp: startswith_prefix sublist_Cons_right)

section \<open>The site filter, exactly\<close>

text \<open>
  C2. \<open>looks_like_business_site\<close> is a function of the URL alone (and of the standard
  library's parser). It answers true exactly when \<open>urlparse\<close> yields a network location
  that is not empty and that, lowercased as \<open>domain_of\<close> does, contains none of
  \<open>SOCIAL_DOMAINS\<close> as a substring and ends in \<open>.com\<close>, \<open>.net\<close> or \<open>.org\<close>; in every
  other case (no network location, one the parser rejects, a blocklisted substring, another
  suffix) it answers false.
\<close>

theorem site_filter_exact:
  "looks_like_business_site netloc u \<longleftrightarrow>
     (\<exists>n. netloc u = Some n \<and> n \<noteq> [] \<and>
          (\<forall>s \<in> set SOCIAL_DOMAINS. \<not> sublist s (lower n)) \<and>
          (suffix (asc ''.com'') (lower n) \<or> suffix (asc ''.net'') (lower n) \<or>
           suffix (asc ''.org'') (lower n)))"
  by (cases "netloc u")
    (auto simp: looks_like_business_site_def domain_of_def lower_def Let_def list_ex_iff
      py_in_sublist endswith_suffix)

theorem site_filter_exact_witness:
  "looks_like_business_site plain_netloc (asc ''https://www.AcmeBuilders.com/about'') \<and>
   (\<exists>n. plain_netloc (asc ''https://www.AcmeBuilders.com/about'') = Some n \<and> n \<noteq> [] \<and>
        (\<forall>s \<in> set SOCIAL_DOMAINS. \<not> sublist s (lower n)) \<and>
        suffix (asc ''.com'') (lower n))"
proof -
  let ?u = "asc ''https://www.AcmeBuilders.com/about''"
  have ok: "looks_like_business_site plain_netloc ?u"
    by (simp add: looks_like_business_site_def domain_of_def plain_netloc_def is_scheme_def asc_def
      startswith_def endswith_def lower_def lower_cp_def SOCIAL_DOMAINS_def Let_def)
  have n: "plain_netloc ?u = Some (asc ''www.AcmeBuilders.com'')"
    by (simp add: plain_netloc_def is_scheme_def asc_def startswith_def)
  have nosuf: "\<not> suffix (asc ''.net'') (lower (asc ''www.AcmeBuilders.com''))"
     "\<not> suffix (asc ''.org'') (lower (asc ''www.AcmeBuilders.com''))"
    by (simp_all add: endswith_suffix [symmetric] endswith_def asc_def lower_def lower_cp_def)
  from ok site_filter_exact [of plain_netloc ?u] n nosuf show ?thesis
    by auto
qed

section \<open>The lead store under \<open>upsert_lead\<close>\<close>


section \<open>The campaign loop\<close>

lemma campaign_loop_inv:
  "campaign_loop send subject html cap es (sent, log, w) = (sent', log', w') \<Longrightarrow>
   int sent \<le> max 0 cap \<Longrightarrow> sent = length (delivered log) \<Longrightarrow>
   int sent' \<le> max 0 cap \<and> sent' = length (delivered log') \<and>
   (\<exists>n. recipients log' = recipients log @ take n es) \<and>
   (int sent' < cap \<longrightarrow> recipients log' = recipients log @ es)"
proof (induction es arbitrary: sent log w)
  case Nil
  then show ?case by auto
next
  case (Cons e es)
  show ?case
  proof (cases "int sent \<ge> cap")
    case True
    with Cons.prems show ?thesis
      by (auto intro: exI [of _ 0])
  next
    case False
    obtain ok w1 where s: "send e subject html w = (ok, w1)"
      by (cases "send e subject html w")
    define log1 where "log1 = (if ok then log @ [Mail e True, Sleep 3] else log @ [Mail e False])"
    define sent1 where "sent1 = (if ok then sent + 1 else sent)"
    from s False Cons.prems(1) have
      run: "campaign_loop send subject html cap es (sent1, log1, w1) = (sent', log', w')"
      by (cases ok) (simp_all add: log1_def sent1_def)
    have a: "int sent1 \<le> max 0 cap"
      using False Cons.prems(2) by (simp add: sent1_def)
    have b: "sent1 = length (delivered log1)"
      using Cons.prems(3) by (simp add: delivered_def sent1_def log1_def)
    have r: "recipients log1 = recipients log @ [e]"
      by (simp add: recipients_def log1_def)
    from Cons.IH [OF run a b] obtain n where
      n: "recipients log' = recipients log1 @ take n es"
      and rest: "int sent' \<le> max 0 cap" "sent' = length (delivered log')"
        "int sent' < cap \<longrightarrow> recipients log' = recipients log1 @ es"
      by blast
    from n r have "\<exists>m. recipients log' = recipients log @ take m (e # es)"
      by (intro exI [of _ "Suc n"]) simp
    moreover have "int sent' < cap \<longrightarrow> recipients log' = recipients log @ e # es"
      using rest(3) r by simp
    ultimately show ?thesis
      using rest(1,2) by blast
  qed
qed

lemma campaign_loop_run:
  "campaign_loop send subject html cap es (sent, log, w) = (sent', log', w') \<Longrightarrow>
   \<exists>n oks. n \<le> length es \<and> send_all send subject html (take n es) w = (oks, w') \<and>
     log' = log @ concat (map attempt_events (zip (take n es) oks)) \<and>
     sent' = sent + count_list oks True \<and>
     (n < length es \<longrightarrow> cap \<le> int sent') \<and>
     (\<forall>m < n. int (sent + count_list (take m oks) True) < cap)"
proof (induction es arbitrary: sent log w)
  case Nil
  then show ?case
    by (intro exI [of _ 0] exI [of _ "[]"]) simp
next
  case (Cons e es)
  show ?case
  proof (cases "int sent \<ge> cap")
    case True
    with Cons.prems show ?thesis
      by (intro exI [of _ 0] exI [of _ "[]"]) simp
  next
    case False
    obtain ok w1 where s: "send e subject html w = (ok, w1)"
      by (cases "send e subject html w")
    define sent1 where "sent1 = (if ok then sent + 1 else sent)"
    define log1 where "log1 = log @ attempt_events (e, ok)"
    from s False Cons.prems have
      run: "campaign_loop send subject html cap es (sent1, log1, w1) = (sent', log', w')"
      by (cases ok) (simp_all add: sent1_def log1_def)
    from Cons.IH [OF run] obtain n oks where n: "n \<le> length es"
      "send_all send subject html (take n es) w1 = (oks, w')"
      "log' = log1 @ concat (map attempt_events (zip (take n es) oks))"
      "sent' = sent1 + count_list oks True"
      "n < length es \<longrightarrow> cap \<le> int sent'"
      "\<forall>m < n. int (sent1 + count_list (take m oks) True) < cap"
      by blast
    have a: "send_all send subject html (take (Suc n) (e # es)) w = (ok # oks, w')"
      using s n(2) by simp
    have b: "log' = log @ concat (map attempt_events (zip (take (Suc n) (e # es)) (ok # oks)))"
      using n(3) by (simp add: log1_def)
    have c: "sent' = sent + count_list (ok # oks) True"
      using n(4) by (simp add: sent1_def)
    have d: "\<forall>m < Suc n. int (sent + count_list (take m (ok # oks)) True) < cap"
    proof (intro allI impI)
      fix m assume m: "m < Suc n"
      show "int (sent + count_list (take m (ok # oks)) True) < cap"
      proof (cases m)
        case 0
        with False show ?thesis by simp
      next
        case (Suc k)
        with m n(6) have "int (sent1 + count_list (take k oks) True) < cap"
          by simp
        with Suc show ?thesis
          by (cases ok) (simp_all add: sent1_def)
      qed
    qed
    show ?thesis
      apply (rule exI [of _ "Suc n"], rule exI [of _ "ok # oks"])
      using n(1,5) a b c d by simp
  qed
qed

lemma campaign_loop_by_recipient:
  "(\<And>e v. fst (send e subject html v) = ok e) \<Longrightarrow>
   campaign_loop send subject html cap es (sent, log, w) = (sent', log', w') \<Longrightarrow>
   sent' = sent + length (take (nat cap - sent) (filter ok es)) \<and>
   delivered log' = delivered log @ take (nat cap - sent) (filter ok es)"
proof (induction es arbitrary: sent log w)
  case Nil
  then show ?case by simp
next
  case (Cons e es)
  show ?case
  proof (cases "int sent \<ge> cap")
    case True
    then have "nat cap - sent = 0" by simp
    with True Cons.prems(2) show ?thesis by simp
  next
    case False
    then have pos: "nat cap - sent = Suc (nat cap - Suc sent)"
      by linarith
    obtain r w1 where s: "send e subject html w = (r, w1)"
      by (cases "send e subject html w")
    with Cons.prems(1) [of e w] have r: "r = ok e" by simp
    show ?thesis
    proof (cases "ok e")
      case True
      with s r False Cons.prems(2) have
        "campaign_loop send subject html cap es (sent + 1, log @ [Mail e True, Sleep 3], w1) = (sent', log', w')"
        by simp
      from Cons.IH [OF Cons.prems(1) this] True pos show ?thesis
        by (simp add: delivered_def)
    next
      case F: False
      with s r False Cons.prems(2) have
        "campaign_loop send subject html cap es (sent, log @ [Mail e False], w1) = (sent', log', w')"
        by simp
      from Cons.IH [OF Cons.prems(1) this] F show ?thesis
        by (simp add: delivered_def)
    qed
  qed
qed

text \<open>
  C3. The campaign loop goes through the Emails of the lead store in store order and hands
  them to \<open>send_email_smtp\<close> one after the other, with the subject and the rendered
  HTML: its events and the world it leaves are those of the calls for the first \<open>n\<close>
  addresses, each call that returned followed by the pause. It stops before the end only
  when the number of calls that returned has reached the daily cap, and not before it has;
  a call that raises costs only its own recipient. The number it reports is the number of
  calls that returned, never more than the cap. For a server whose answer depends on the
  recipient alone, it delivers to the first \<open>cap\<close> recipients that the server accepts, in
  store order: with five leads, a cap of 3 and every call returning, to the first three,
  and it reports 3.
\<close>

theorem campaign_sends_up_to_cap:
  assumes "send_campaign send subject greeting body signature daily_cap df w = (sent, log, w')"
  shows "(\<exists>n oks. n \<le> length df \<and>
       send_all send subject (render_html greeting body signature) (take n (map Email df)) w
         = (oks, w') \<and>
       log = concat (map attempt_events (zip (take n (map Email df)) oks)) \<and>
       sent = count_list oks True \<and>
       (n < length df \<longrightarrow> daily_cap \<le> int sent) \<and>
       (\<forall>m < n. int (count_list (take m oks) True) < daily_cap)) \<and>
    int sent \<le> max 0 daily_cap \<and> sent = length (delivered log) \<and>
    (\<forall>ok. (\<forall>e v. fst (send e subject (render_html greeting body signature) v) = ok e) \<longrightarrow>
       sent = length (take (nat daily_cap) (filter ok (map Email df))) \<and>
       delivered log = take (nat daily_cap) (filter ok (map Email df))) \<and>
    ((\<forall>e v. fst (send e subject (render_html greeting body signature) v)) \<and>
       length df = 5 \<and> daily_cap = 3 \<longrightarrow>
       sent = 3 \<and> delivered log = take 3 (map Email df))"
proof -
  let ?html = "render_html greeting body signature"
  from assms have run:
    "campaign_loop send subject ?html daily_cap (map Email df) (0, [], w) = (sent, log, w')"
    by (simp add: send_campaign_def)
  from campaign_loop_run [OF run] have first:
    "\<exists>n oks. n \<le> length df \<and>
       send_all send subject ?html (take n (map Email df)) w = (oks, w') \<and>
       log = concat (map attempt_events (zip (take n (map Email df)) oks)) \<and>
       sent = count_list oks True \<and>
       (n < length df \<longrightarrow> daily_cap \<le> int sent) \<and>
       (\<forall>m < n. int (count_list (take m oks) True) < daily_cap)"
    by simp
  have inv: "int sent \<le> max 0 daily_cap \<and> sent = length (delivered log)"
    using campaign_loop_inv [OF run] by (simp add: delivered_def)
  have by_ok: "sent = length (take (nat daily_cap) (filter ok (map Email df))) \<and>
       delivered log = take (nat daily_cap) (filter ok (map Email df))"
    if "\<forall>e v. fst (send e subject ?html v) = ok e" for ok
    using campaign_loop_by_recipient [OF _ run, of ok] that by (simp add: delivered_def)
  have five: "sent = 3 \<and> delivered log = take 3 (map Email df)"
    if "(\<forall>e v. fst (send e subject ?html v)) \<and> length df = 5 \<and> daily_cap = 3"
    using by_ok [of "\<lambda>e. True"] that by simp
  from first inv by_ok five show ?thesis
    by blast
qed

theorem campaign_sends_up_to_cap_witness:
  "send_campaign refuse_b [] [] [] [] 3 five_leads () =
     (3, [Mail (asc ''a@x.com'') True, Sleep 3, Mail (asc ''b@x.com'') False,
          Mail (asc ''c@x.com'') True, Sleep 3, Mail (asc ''d@x.com'') True, Sleep 3], ()) \<and>
   delivered [Mail (asc ''a@x.com'') True, Sleep 3, Mail (asc ''b@x.com'') False,
          Mail (asc ''c@x.com'') True, Sleep 3, Mail (asc ''d@x.com'') True, Sleep 3] =
     take (nat 3) (filter (\<lambda>e. e \<noteq> asc ''b@x.com'') (map Email five_leads)) \<and>
   send_campaign accept_all [] [] [] [] 3 five_leads () =
     (3, [Mail (asc ''a@x.com'') True, Sleep 3, Mail (asc ''b@x.com'') True, Sleep 3,
          Mail (asc ''c@x.com'') True, Sleep 3], ()) \<and>
   delivered [Mail (asc ''a@x.com'') True, Sleep 3, Mail (asc ''b@x.com'') True, Sleep 3,
          Mail (asc ''c@x.com'') True, Sleep 3] = take 3 (map Email five_leads) \<and>
   fst (send_campaign refuse_all [] [] [] [] 3 five_leads ()) = 0"
proof -
  let ?logb = "[Mail (asc ''a@x.com'') True, Sleep 3, Mail (asc ''b@x.com'') False,
          Mail (asc ''c@x.com'') True, Sleep 3, Mail (asc ''d@x.com'') True, Sleep 3]"
  let ?loga = "[Mail (asc ''a@x.com'') True, Sleep 3, Mail (asc ''b@x.com'') True, Sleep 3,
          Mail (asc ''c@x.com'') True, Sleep 3]"
  have runb: "send_campaign refuse_b [] [] [] [] 3 five_leads () = (3, ?logb, ())"
    by (simp add: send_campaign_def five_leads_def lead_of_def refuse_b_def asc_def)
  have okb: "\<forall>e v. fst (refuse_b e [] (render_html [] [] []) v) = (e \<noteq> asc ''b@x.com'')"
    by (simp add: refuse_b_def)
  note tb = campaign_sends_up_to_cap [OF runb]
  note tb_ok = tb [THEN conjunct2, THEN conjunct2, THEN conjunct2, THEN conjunct1,
      THEN spec, of "\<lambda>e. e \<noteq> asc ''b@x.com''", THEN mp, OF okb]
  have b: "delivered ?logb = take (nat 3) (filter (\<lambda>e. e \<noteq> asc ''b@x.com'') (map Email five_leads))"
    by (rule tb_ok [THEN conjunct2])
  have runa: "send_campaign accept_all [] [] [] [] 3 five_leads () = (3, ?loga, ())"
    by (simp add: send_campaign_def five_leads_def lead_of_def accept_all_def)
  have oka: "(\<forall>e v. fst (accept_all e [] (render_html [] [] []) v)) \<and>
      length five_leads = 5 \<and> (3::int) = 3"
    by (simp add: accept_all_def five_leads_def)
  note ta = campaign_sends_up_to_cap [OF runa]
  note ta_five = ta [THEN conjunct2, THEN conjunct2, THEN conjunct2, THEN conjunct2,
      THEN mp, OF oka]
  have a: "delivered ?loga = take 3 (map Email five_leads)"
    by (rule ta_five [THEN conjunct2])
  obtain sent log w' where
    runr: "send_campaign refuse_all [] [] [] [] 3 five_leads () = (sent, log, w')"
    by (cases "send_campaign refuse_all [] [] [] [] 3 five_leads ()")
  have okr: "\<forall>e v. fst (refuse_all e [] (render_html [] [] []) v) = False"
    by (simp add: refuse_all_def)
  note tr = campaign_sends_up_to_cap [OF runr]
  note tr_ok = tr [THEN conjunct2, THEN conjunct2, THEN conjunct2, THEN conjunct1,
      THEN spec, of "\<lambda>e. False", THEN mp, OF okr]
  from tr_ok have "sent = 0"
    by simp
  then have r: "fst (send_campaign refuse_all [] [] [] [] 3 five_leads ()) = 0"
    using runr by simp
  show ?thesis
    by (intro conjI runb b runa a r)
qed

section \<open>The key passed to the generic SERP adapter\<close>

text \<open>
  C5. The specification has it that for some configured key that is not empty the call site passes
  something else than that key. It does not: whatever the globals hold besides
  \<open>SERP_KEY\<close> (with \<open>SERRP_KEY\<close> bound or not), no key that is not empty is lost.
\<close>

theorem key_argument_never_loses_key:
  "\<not> (\<exists>k g. k \<noteq> [] \<and> g ''SERP_KEY'' = Some k \<and> passed_key g \<noteq> Inr k)"
  by (auto simp: passed_key_def key_argument_def)

text \<open>
  C5, as amended. The condition of \<open>SERRP_KEY if (SERRP_KEY:=SERP_KEY) else ""\<close> is
  evaluated first and binds \<open>SERRP_KEY\<close> before the name is read, so no \<open>NameError\<close>
  is raised and the value passed as \<open>key\<close> is the configured \<open>SERP_KEY\<close>, for every
  configured key (the empty key is passed as the empty string it is).
\<close>

theorem key_argument_passes_key:
  "g ''SERP_KEY'' = Some k \<Longrightarrow> passed_key g = Inr k"
  by (simp add: passed_key_def key_argument_def)

theorem key_argument_passes_key_witness:
  "passed_key ((\<lambda>x. None)(''SERP_KEY'' \<mapsto> asc ''secret'')) = Inr (asc ''secret'')"
  using key_argument_passes_key [of "(\<lambda>x. None)(''SERP_KEY'' \<mapsto> asc ''secret'')" "asc ''secret''"]
  by simp

section \<open>The extractor\<close>

lemma split_from_nonempty: "split_from sep cur s \<noteq> []"
  by (induction sep cur s rule: split_from.induct) (subst split_from.simps, auto split: list.splits)

lemma hd_split_from:
  "sep \<noteq> [] \<Longrightarrow> hd (split_from sep cur s) = cur @ before_first [sep] s"
proof (induction sep cur s rule: split_from.induct)
  case (1 sep cur s)
  show ?case
  proof (cases "startswith s sep")
    case True
    with 1 have "s \<noteq> []" by (auto simp: startswith_def)
    then obtain c t where s: "s = c # t" by (cases s) auto
    from True "1.prems" s show ?thesis
      by (subst split_from.simps) simp
  next
    case False
    show ?thesis
    proof (cases s)
      case Nil
      then show ?thesis by (subst split_from.simps) simp
    next
      case (Cons c t)
      with False "1.IH"(2) [OF _ Cons] "1.prems" show ?thesis
        by (subst split_from.simps) simp
    qed
  qed
qed

lemma hd_py_split: "sep \<noteq> [] \<Longrightarrow> hd (py_split s sep) = before_first [sep] s"
  by (simp add: py_split_def hd_split_from)

lemma first_findall_from:
  "first_or_none (findall_from items prev s) =
     (case match_here items prev s of
        Some n \<Rightarrow> Some (take n s)
      | None \<Rightarrow> (case s of [] \<Rightarrow> None | c # t \<Rightarrow> first_or_none (findall_from items (Some c) t)))"
  by (subst findall_from.simps) (simp add: first_or_none_def split: option.splits list.splits)

lemma first_findall_from_Some:
  "first_or_none (findall_from items prev s) = Some e \<longleftrightarrow>
     (\<exists>i n. i \<le> length s \<and> match_here items (prev_after prev s i) (drop i s) = Some n \<and>
            e = take n (drop i s) \<and>
            (\<forall>j < i. match_here items (prev_after prev s j) (drop j s) = None))"
proof (induction s arbitrary: prev)
  case Nil
  show ?case
    by (subst first_findall_from) (auto simp: prev_after_def split: option.splits)
next
  case (Cons c t)
  show ?case (is "?L \<longleftrightarrow> ?R")
  proof (cases "match_here items prev (c # t)")
    case (Some n)
    then have L: "?L \<longleftrightarrow> e = take n (c # t)"
      by (subst first_findall_from) auto
    have "?R \<longleftrightarrow> e = take n (c # t)"
    proof
      assume ?R
      then obtain i m where im: "i \<le> length (c # t)"
        "match_here items (prev_after prev (c # t) i) (drop i (c # t)) = Some m"
        "e = take m (drop i (c # t))"
        "\<forall>j < i. match_here items (prev_after prev (c # t) j) (drop j (c # t)) = None"
        by blast
      have "i = 0"
      proof (rule ccontr)
        assume "i \<noteq> 0"
        then have "0 < i" by simp
        with im(4) have "match_here items (prev_after prev (c # t) 0) (drop 0 (c # t)) = None"
          by blast
        with Some show False by (simp add: prev_after_def)
      qed
      with im Some show "e = take n (c # t)"
        by (simp add: prev_after_def)
    next
      assume "e = take n (c # t)"
      with Some show ?R
        by (intro exI [of _ 0] exI [of _ n]) (simp add: prev_after_def)
    qed
    with L show ?thesis by simp
  next
    case None
    then have L: "?L \<longleftrightarrow> first_or_none (findall_from items (Some c) t) = Some e"
      by (subst first_findall_from) auto
    have shift: "match_here items (prev_after prev (c # t) (Suc j)) (drop (Suc j) (c # t))
        = match_here items (prev_after (Some c) t j) (drop j t)" for j
      by (cases j) (simp_all add: prev_after_def)
    have "?R \<longleftrightarrow> (\<exists>i n. i \<le> length t \<and> match_here items (prev_after (Some c) t i) (drop i t) = Some n \<and>
            e = take n (drop i t) \<and>
            (\<forall>j < i. match_here items (prev_after (Some c) t j) (drop j t) = None))"
      (is "_ \<longleftrightarrow> ?R'")
    proof
      assume ?R
      then obtain i m where im: "i \<le> length (c # t)"
        "match_here items (prev_after prev (c # t) i) (drop i (c # t)) = Some m"
        "e = take m (drop i (c # t))"
        "\<forall>j < i. match_here items (prev_after prev (c # t) j) (drop j (c # t)) = None"
        by blast
      from im(2) None have "i \<noteq> 0"
        by (cases "i = 0") (simp_all add: prev_after_def)
      then obtain k where k: "i = Suc k" by (cases i) auto
      have "\<forall>j < k. match_here items (prev_after (Some c) t j) (drop j t) = None"
      proof (intro allI impI)
        fix j assume "j < k"
        then have "Suc j < i" using k by simp
        with im(4) have "match_here items (prev_after prev (c # t) (Suc j)) (drop (Suc j) (c # t)) = None"
          by blast
        then show "match_here items (prev_after (Some c) t j) (drop j t) = None"
          by (simp only: shift)
      qed
      moreover from im(2) k have "match_here items (prev_after (Some c) t k) (drop k t) = Some m"
        by (simp only: shift)
      moreover from im(1,3) k have "k \<le> length t" "e = take m (drop k t)"
        by simp_all
      ultimately show ?R' by blast
    next
      assume ?R'
      then obtain k m where km: "k \<le> length t"
        "match_here items (prev_after (Some c) t k) (drop k t) = Some m"
        "e = take m (drop k t)"
        "\<forall>j < k. match_here items (prev_after (Some c) t j) (drop j t) = None"
        by blast
      have "\<forall>j < Suc k. match_here items (prev_after prev (c # t) j) (drop j (c # t)) = None"
      proof (intro allI impI)
        fix j assume j: "j < Suc k"
        show "match_here items (prev_after prev (c # t) j) (drop j (c # t)) = None"
        proof (cases j)
          case 0
          with None show ?thesis by (simp add: prev_after_def)
        next
          case (Suc j')
          with j km(4) have "match_here items (prev_after (Some c) t j') (drop j' t) = None"
            by simp
          with Suc show ?thesis by (simp only: shift)
        qed
      qed
      moreover from km(2) have
        "match_here items (prev_after prev (c # t) (Suc k)) (drop (Suc k) (c # t)) = Some m"
        by (simp only: shift)
      moreover from km(1,3) have "Suc k \<le> length (c # t)" "e = take m (drop (Suc k) (c # t))"
        by simp_all
      ultimately show ?R by blast
    qed
    with L Cons.IH [of "Some c"] show ?thesis by simp
  qed
qed


lemma first_findall_from_None:
  "first_or_none (findall_from items prev s) = None \<longleftrightarrow>
     (\<forall>i \<le> length s. match_here items (prev_after prev s i) (drop i s) = None)"
proof (induction s arbitrary: prev)
  case Nil
  show ?case
    by (subst first_findall_from) (auto simp: prev_after_def split: option.splits)
next
  case (Cons c t)
  have shift: "match_here items (prev_after prev (c # t) (Suc j)) (drop (Suc j) (c # t))
      = match_here items (prev_after (Some c) t j) (drop j t)" for j
    by (cases j) (simp_all add: prev_after_def)
  have zero: "match_here items (prev_after prev (c # t) 0) (drop 0 (c # t)) = match_here items prev (c # t)"
    by (simp add: prev_after_def)
  have "(\<forall>i \<le> length (c # t). match_here items (prev_after prev (c # t) i) (drop i (c # t)) = None)
    \<longleftrightarrow> match_here items prev (c # t) = None \<and>
        (\<forall>i \<le> length t. match_here items (prev_after (Some c) t i) (drop i t) = None)"
    (is "?A \<longleftrightarrow> ?B")
  proof
    assume a: ?A
    then have "match_here items (prev_after prev (c # t) 0) (drop 0 (c # t)) = None"
      by blast
    moreover have "match_here items (prev_after (Some c) t i) (drop i t) = None" if "i \<le> length t" for i
    proof -
      from that have "Suc i \<le> length (c # t)" by simp
      with a have "match_here items (prev_after prev (c # t) (Suc i)) (drop (Suc i) (c # t)) = None"
        by blast
      then show ?thesis by (simp only: shift)
    qed
    ultimately show ?B by (simp only: zero) blast
  next
    assume b: ?B
    show ?A
    proof (intro allI impI)
      fix i assume i: "i \<le> length (c # t)"
      show "match_here items (prev_after prev (c # t) i) (drop i (c # t)) = None"
      proof (cases i)
        case 0
        with b show ?thesis by (simp add: prev_after_def)
      next
        case (Suc k)
        with i b have "match_here items (prev_after (Some c) t k) (drop k t) = None"
          by simp
        with Suc show ?thesis by (simp only: shift)
      qed
    qed
  qed
  with Cons.IH [of "Some c"] show ?case
    by (subst first_findall_from) (simp split: option.splits)
qed

lemma findall_first_match: "is_first_match items text (first_or_none (findall items text))"
proof (cases "first_or_none (findall items text)")
  case None
  then have "\<forall>i \<le> length text. match_at items text i = None"
    using first_findall_from_None [of items None "text"]
    by (simp add: findall_def match_at_def)
  with None show ?thesis
    by (simp add: is_first_match_def)
next
  case (Some e)
  then have "\<exists>i n. i \<le> length text \<and> match_at items text i = Some n \<and> e = take n (drop i text) \<and>
      (\<forall>j < i. match_at items text j = None)"
    using first_findall_from_Some [of items None "text" e]
    by (simp add: findall_def match_at_def)
  with Some show ?thesis
    by (simp add: is_first_match_def)
qed

lemma company_of_title:
  "company_of sp =
     (if title_name sp \<noteq> [] then Some (title_name sp)
      else if h1_name sp \<noteq> [] then Some (h1_name sp)
      else if title_string sp = None \<or> title_string sp = Some [] then None else Some [])"
proof -
  have seps: "BAR_SEP \<noteq> []" "DASH_SEP \<noteq> []"
    by (simp_all add: BAR_SEP_def DASH_SEP_def asc_def)
  show ?thesis
    by (cases "title_string sp"; cases "h1_text sp")
      (auto simp: company_of_def title_name_def h1_name_def truthy_def hd_py_split seps Let_def
        strip_def lstrip_def rstrip_def)
qed

lemma try_counts_weak_cong: "lo = lo' \<Longrightarrow> n = n' \<Longrightarrow> try_counts f lo n = try_counts f lo' n'"
  by simp

lemmas re_defs = EMAIL_RE_def PHONE_RE_def findall_def re_match_def at_boundary_def prev_after_def
  is_word_def is_digit_def is_ascii_alpha_def is_space_def one_of_def one_def lit_def optional_def
  exactly_def at_least_def asc_def Let_def findall_from.simps

lemma acme_extract:
  "extract_company_info (Response 200 acme_page) =
     (Some (asc ''Acme Co''), Some (asc ''contact@acme.com''), Some (asc ''(305) 123-4567''))"
  by (simp add: extract_company_info_def raise_for_status_def acme_page_def company_of_def
      py_split_def split_from.simps startswith_def BAR_SEP_def DASH_SEP_def truthy_def
      strip_def lstrip_def rstrip_def first_or_none_def re_defs cong: try_counts_weak_cong)

text \<open>
  C6. The specification cuts the title at the first separator of either kind. The program cuts at
  the first \<open>" | "\<close> and then cuts what is left at the first en dash separator, and the
  two differ where an en dash separator runs into a bar: of the title \<open>Acme - | Home\<close>,
  its dash being the en dash U+2013, the program keeps \<open>Acme -\<close>, while the title
  truncated at its first separator is \<open>Acme\<close>.
\<close>

theorem company_overlapping_separators:
  "fst (extract_company_info (Response 200 overlap_page)) = Some (asc ''Acme '' @ [8211]) \<and>
   title_string overlap_page = Some (asc ''Acme '' @ [8211] @ asc '' | Home'') \<and>
   take 120 (strip (before_first [BAR_SEP, DASH_SEP] (asc ''Acme '' @ [8211] @ asc '' | Home'')))
     = asc ''Acme''"
  by (simp add: extract_company_info_def raise_for_status_def overlap_page_def company_of_def
      py_split_def split_from.simps startswith_def BAR_SEP_def DASH_SEP_def truthy_def
      strip_def lstrip_def rstrip_def is_space_def asc_def Let_def)

text \<open>
  C6, as amended. For a page that was fetched (the request returned and its status is no
  error status), the extractor returns the first match of the email pattern and the first
  match of the phone pattern in the document's text (\<open>None\<close> when there is none), and as
  company the title cut at the first \<open>" | "\<close> and then at the first en dash separator of
  what is left, stripped, at most 120 characters; when the title gives no name, the text of
  the first h1, at most 120 characters; else nothing (\<open>None\<close> or the empty string). The
  page with the title \<open>Acme Co | Flooring\<close> and a body holding \<open>contact@acme.com\<close> and
  \<open>(305) 123-4567\<close> yields \<open>Acme Co\<close>, \<open>contact@acme.com\<close> and \<open>(305) 123-4567\<close>.
\<close>

theorem extract_company_info_fetched:
  "(\<not> raise_for_status status \<and>
    extract_company_info (Response status sp) = (company, email, phone) \<longrightarrow>
      is_first_match EMAIL_RE (get_text sp) email \<and>
      is_first_match PHONE_RE (get_text sp) phone \<and>
      (title_name sp \<noteq> [] \<longrightarrow> company = Some (title_name sp)) \<and>
      (title_name sp = [] \<and> h1_name sp \<noteq> [] \<longrightarrow> company = Some (h1_name sp)) \<and>
      (title_name sp = [] \<and> h1_name sp = [] \<longrightarrow> \<not> truthy company) \<and>
      length (title_name sp) \<le> 120 \<and> length (h1_name sp) \<le> 120) \<and>
   extract_company_info (Response 200 acme_page) =
     (Some (asc ''Acme Co''), Some (asc ''contact@acme.com''), Some (asc ''(305) 123-4567''))"
proof -
  have len: "length (title_name sp) \<le> 120" "length (h1_name sp) \<le> 120"
    by (simp_all add: title_name_def h1_name_def split: option.splits)
  have "is_first_match EMAIL_RE (get_text sp) email \<and>
      is_first_match PHONE_RE (get_text sp) phone \<and>
      (title_name sp \<noteq> [] \<longrightarrow> company = Some (title_name sp)) \<and>
      (title_name sp = [] \<and> h1_name sp \<noteq> [] \<longrightarrow> company = Some (h1_name sp)) \<and>
      (title_name sp = [] \<and> h1_name sp = [] \<longrightarrow> \<not> truthy company)"
    if ok: "\<not> raise_for_status status"
      and r: "extract_company_info (Response status sp) = (company, email, phone)"
  proof -
    from ok r have c: "company = company_of sp"
      and e: "email = first_or_none (findall EMAIL_RE (get_text sp))"
      and p: "phone = first_or_none (findall PHONE_RE (get_text sp))"
      by (simp_all add: extract_company_info_def Let_def)
    have "is_first_match EMAIL_RE (get_text sp) email"
      unfolding e by (rule findall_first_match)
    moreover have "is_first_match PHONE_RE (get_text sp) phone"
      unfolding p by (rule findall_first_match)
    moreover have "title_name sp \<noteq> [] \<longrightarrow> company = Some (title_name sp)"
      unfolding c by (simp add: company_of_title)
    moreover have "title_name sp = [] \<and> h1_name sp \<noteq> [] \<longrightarrow> company = Some (h1_name sp)"
      unfolding c by (simp add: company_of_title)
    moreover have "title_name sp = [] \<and> h1_name sp = [] \<longrightarrow> \<not> truthy company"
      unfolding c by (simp add: company_of_title truthy_def)
    ultimately show ?thesis
      by blast
  qed
  with len acme_extract show ?thesis
    by blast
qed

theorem extract_company_info_fetched_witness:
  "extract_company_info (Response 200 acme_page) =
     (Some (asc ''Acme Co''), Some (asc ''contact@acme.com''), Some (asc ''(305) 123-4567'')) \<and>
   title_name acme_page = asc ''Acme Co'' \<and>
   is_first_match EMAIL_RE (get_text acme_page) (Some (asc ''contact@acme.com'')) \<and>
   is_first_match PHONE_RE (get_text acme_page) (Some (asc ''(305) 123-4567''))"
proof -
  have ok: "\<not> raise_for_status 200"
    by (simp add: raise_for_status_def)
  have t: "title_name acme_page = asc ''Acme Co''"
    by (simp add: title_name_def acme_page_def BAR_SEP_def DASH_SEP_def startswith_def
        strip_def lstrip_def rstrip_def is_space_def asc_def)
  from extract_company_info_fetched
    [of 200 acme_page "Some (asc ''Acme Co'')" "Some (asc ''contact@acme.com'')"
      "Some (asc ''(305) 123-4567'')"] ok t
  show ?thesis
    by blast
qed

section \<open>The probe loop\<close>

lemma probe_pages_trace:
  "\<exists>misses.
     (\<forall>m \<in> set misses. \<not> truthy (snd m)) \<and>
     ((events (probe_pages fetch rate_delay provider base pages st) =
         events st @ site_events (delay_or_default rate_delay) misses \<and>
       map fst misses = pages \<and>
       leads (probe_pages fetch rate_delay provider base pages st) = leads st \<and>
       added (probe_pages fetch rate_delay provider base pages st) = added st)
      \<or>
      (\<exists>t e name phone.
         events (probe_pages fetch rate_delay provider base pages st) =
           events st @ site_events (delay_or_default rate_delay) misses @ [Probe t (Some e)] \<and>
         e \<noteq> [] \<and>
         map fst misses @ [t] = take (Suc (length misses)) pages \<and>
         leads (probe_pages fetch rate_delay provider base pages st) =
           upsert_lead name (Some e) base phone (source_of provider) (leads st) \<and>
         added (probe_pages fetch rate_delay provider base pages st) = added st + 1))"
proof (induction pages arbitrary: st)
  case Nil
  show ?case
    by (rule exI [of _ "[]"]) simp
next
  case (Cons target rest)
  obtain r w' where f: "fetch target (world st) = (r, w')"
    by (cases "fetch target (world st)")
  obtain name email phone where x: "extract_company_info r = (name, email, phone)"
    by (cases "extract_company_info r")
  let ?d = "delay_or_default rate_delay"
  show ?case
  proof (cases "truthy email")
    case True
    then obtain e where e: "email = Some e" "e \<noteq> []"
      by (auto simp: truthy_def split: option.splits)
    have "events (probe_pages fetch rate_delay provider base (target # rest) st) =
           events st @ site_events ?d [] @ [Probe target (Some e)]"
      "leads (probe_pages fetch rate_delay provider base (target # rest) st) =
           upsert_lead name (Some e) base phone (source_of provider) (leads st)"
      "added (probe_pages fetch rate_delay provider base (target # rest) st) = added st + 1"
      using f x True e by (simp_all add: Let_def)
    then show ?thesis
      apply -
      apply (rule exI [of _ "[]"])
      apply (rule conjI, simp)
      apply (rule disjI2)
      apply (rule exI [of _ target], rule exI [of _ e], rule exI [of _ name], rule exI [of _ phone])
      using e(2) by (simp del: probe_pages.simps)
  next
    case False
    let ?st2 = "st\<lparr>world := w', events := events st @ [Probe target email, Sleep ?d]\<rparr>"
    have step: "probe_pages fetch rate_delay provider base (target # rest) st =
        probe_pages fetch rate_delay provider base rest ?st2"
      using f x False by (simp add: Let_def)
    from Cons.IH [of ?st2] obtain misses where
      m: "\<forall>m \<in> set misses. \<not> truthy (snd m)"
      and alt: "(events (probe_pages fetch rate_delay provider base rest ?st2) =
         events ?st2 @ site_events ?d misses \<and>
       map fst misses = rest \<and>
       leads (probe_pages fetch rate_delay provider base rest ?st2) = leads ?st2 \<and>
       added (probe_pages fetch rate_delay provider base rest ?st2) = added ?st2)
      \<or>
      (\<exists>t e name phone.
         events (probe_pages fetch rate_delay provider base rest ?st2) =
           events ?st2 @ site_events ?d misses @ [Probe t (Some e)] \<and>
         e \<noteq> [] \<and>
         map fst misses @ [t] = take (Suc (length misses)) rest \<and>
         leads (probe_pages fetch rate_delay provider base rest ?st2) =
           upsert_lead name (Some e) base phone (source_of provider) (leads ?st2) \<and>
         added (probe_pages fetch rate_delay provider base rest ?st2) = added ?st2 + 1)"
      by blast
    let ?ms = "(target, email) # misses"
    have m': "\<forall>m \<in> set ?ms. \<not> truthy (snd m)"
      using m False by simp
    from alt show ?thesis
    proof
      assume a: "events (probe_pages fetch rate_delay provider base rest ?st2) =
         events ?st2 @ site_events ?d misses \<and>
       map fst misses = rest \<and>
       leads (probe_pages fetch rate_delay provider base rest ?st2) = leads ?st2 \<and>
       added (probe_pages fetch rate_delay provider base rest ?st2) = added ?st2"
      show ?thesis
        unfolding step
        apply (rule exI [of _ ?ms])
        using a m' by (simp del: probe_pages.simps)
    next
      assume "\<exists>t e name phone.
         events (probe_pages fetch rate_delay provider base rest ?st2) =
           events ?st2 @ site_events ?d misses @ [Probe t (Some e)] \<and>
         e \<noteq> [] \<and>
         map fst misses @ [t] = take (Suc (length misses)) rest \<and>
         leads (probe_pages fetch rate_delay provider base rest ?st2) =
           upsert_lead name (Some e) base phone (source_of provider) (leads ?st2) \<and>
         added (probe_pages fetch rate_delay provider base rest ?st2) = added ?st2 + 1"
      then obtain t e nm ph where b:
         "events (probe_pages fetch rate_delay provider base rest ?st2) =
           events ?st2 @ site_events ?d misses @ [Probe t (Some e)]"
         "e \<noteq> []"
         "map fst misses @ [t] = take (Suc (length misses)) rest"
         "leads (probe_pages fetch rate_delay provider base rest ?st2) =
           upsert_lead nm (Some e) base ph (source_of provider) (leads ?st2)"
         "added (probe_pages fetch rate_delay provider base rest ?st2) = added ?st2 + 1"
        by blast
      show ?thesis
        unfolding step
        apply (rule exI [of _ ?ms])
        apply (rule conjI [OF m'])
        apply (rule disjI2)
        apply (rule exI [of _ t], rule exI [of _ e], rule exI [of _ nm], rule exI [of _ ph])
        using b by (simp del: probe_pages.simps)
    qed
  qed
qed

lemma no_hit_site_events: "\<forall>m \<in> set ms. \<not> truthy (snd m) \<Longrightarrow> filter is_hit (site_events d ms) = []"
  by (induction d ms rule: site_events.induct) auto

lemma length_upsert_lead:
  "length df \<le> length (upsert_lead name email website phone source df) \<and>
   length (upsert_lead name email website phone source df) \<le> Suc (length df)"
  by (simp add: upsert_lead_def Let_def split: option.splits)

lemma probe_pages_counts:
  "\<exists>evs. events (probe_pages fetch rate_delay provider base pages st) = events st @ evs \<and>
     added (probe_pages fetch rate_delay provider base pages st) = added st + length (filter is_hit evs) \<and>
     length (leads st) \<le> length (leads (probe_pages fetch rate_delay provider base pages st)) \<and>
     length (leads (probe_pages fetch rate_delay provider base pages st))
       \<le> length (leads st) + length (filter is_hit evs)"
proof -
  let ?r = "probe_pages fetch rate_delay provider base pages st"
  let ?d = "delay_or_default rate_delay"
  from probe_pages_trace [of fetch rate_delay provider base pages st]
  obtain misses where m: "\<forall>m \<in> set misses. \<not> truthy (snd m)"
    and alt: "(events ?r = events st @ site_events ?d misses \<and> map fst misses = pages \<and>
        leads ?r = leads st \<and> added ?r = added st)
      \<or> (\<exists>t e name phone.
         events ?r = events st @ site_events ?d misses @ [Probe t (Some e)] \<and> e \<noteq> [] \<and>
         map fst misses @ [t] = take (Suc (length misses)) pages \<and>
         leads ?r = upsert_lead name (Some e) base phone (source_of provider) (leads st) \<and>
         added ?r = added st + 1)"
    by blast
  from alt show ?thesis
  proof
    assume "events ?r = events st @ site_events ?d misses \<and> map fst misses = pages \<and>
        leads ?r = leads st \<and> added ?r = added st"
    then show ?thesis
      using no_hit_site_events [OF m, of ?d]
      by (intro exI [of _ "site_events ?d misses"]) simp
  next
    assume "\<exists>t e name phone.
         events ?r = events st @ site_events ?d misses @ [Probe t (Some e)] \<and> e \<noteq> [] \<and>
         map fst misses @ [t] = take (Suc (length misses)) pages \<and>
         leads ?r = upsert_lead name (Some e) base phone (source_of provider) (leads st) \<and>
         added ?r = added st + 1"
    then obtain t e name phone where b:
      "events ?r = events st @ site_events ?d misses @ [Probe t (Some e)]" "e \<noteq> []"
      "leads ?r = upsert_lead name (Some e) base phone (source_of provider) (leads st)"
      "added ?r = added st + 1"
      by blast
    have h: "filter is_hit (site_events ?d misses @ [Probe t (Some e)]) = [Probe t (Some e)]"
      using no_hit_site_events [OF m, of ?d] b(2) by (simp add: truthy_def)
    show ?thesis
      using b h length_upsert_lead [of "leads st" name "Some e" base phone "source_of provider"]
      by (intro exI [of _ "site_events ?d misses @ [Probe t (Some e)]"]) simp
  qed
qed

lemma scan_sites_counts:
  "\<exists>evs. events (scan_sites fetch rate_delay provider urls st) = events st @ evs \<and>
     added (scan_sites fetch rate_delay provider urls st) = added st + length (filter is_hit evs) \<and>
     length (leads st) \<le> length (leads (scan_sites fetch rate_delay provider urls st)) \<and>
     length (leads (scan_sites fetch rate_delay provider urls st))
       \<le> length (leads st) + length (filter is_hit evs)"
proof (induction urls arbitrary: st)
  case Nil
  show ?case by (intro exI [of _ "[]"]) simp
next
  case (Cons base urls)
  let ?st1 = "probe_pages fetch rate_delay provider base (try_candidate_pages base) st"
  let ?r = "scan_sites fetch rate_delay provider urls ?st1"
  from probe_pages_counts [of fetch rate_delay provider base "try_candidate_pages base" st]
  obtain e1 where a: "events ?st1 = events st @ e1"
    "added ?st1 = added st + length (filter is_hit e1)"
    "length (leads st) \<le> length (leads ?st1)"
    "length (leads ?st1) \<le> length (leads st) + length (filter is_hit e1)"
    by blast
  from Cons.IH [of ?st1] obtain e2 where b: "events ?r = events ?st1 @ e2"
    "added ?r = added ?st1 + length (filter is_hit e2)"
    "length (leads ?st1) \<le> length (leads ?r)"
    "length (leads ?r) \<le> length (leads ?st1) + length (filter is_hit e2)"
    by blast
  show ?case
    using a b by (intro exI [of _ "e1 @ e2"]) simp
qed

lemma extract_404: "extract_company_info (Response 404 sp) = (None, None, None)"
  by (simp add: extract_company_info_def raise_for_status_def)

lemma two_sites_run:
  "search_and_extract (static_web acme_web) 0 (asc ''Bing API (recommended)'') two_sites [] () =
     \<lparr>leads = [\<lparr>Company = asc ''Acme Co'', Email = asc ''contact@acme.com'',
                Website = asc ''https://acme.com'', Phone = asc ''(305) 123-4567'',
                Source = asc ''bing''\<rparr>],
      added = 2,
      events = [Probe (asc ''https://acme.com'') None, Sleep 10,
                Probe (asc ''https://acme.com/contact'') (Some (asc ''contact@acme.com'')),
                Probe (asc ''https://acme-flooring.com'') (Some (asc ''contact@acme.com''))],
      world = ()\<rparr>"
proof -
  have pages: "acme_web (asc ''https://acme.com'') = Response 404 \<lparr>title_string = None, h1_text = None, get_text = []\<rparr>"
    "acme_web (asc ''https://acme.com/contact'') = Response 200 acme_page"
    "acme_web (asc ''https://acme-flooring.com'') = Response 200 acme_page"
    by (simp_all add: acme_web_def asc_def)
  have cand: "try_candidate_pages (asc ''https://acme.com'') =
      [asc ''https://acme.com'', asc ''https://acme.com/contact'', asc ''https://acme.com/contact-us'',
       asc ''https://acme.com/about'', asc ''https://acme.com/team'']"
    "try_candidate_pages (asc ''https://acme-flooring.com'') =
      [asc ''https://acme-flooring.com'', asc ''https://acme-flooring.com/contact'',
       asc ''https://acme-flooring.com/contact-us'', asc ''https://acme-flooring.com/about'',
       asc ''https://acme-flooring.com/team'']"
    by (simp_all add: try_candidate_pages_def rstrip_chars_def asc_def)
  have src: "source_of (asc ''Bing API (recommended)'') = asc ''bing''"
    by (simp add: source_of_def startswith_def asc_def)
  have up1: "upsert_lead (Some (asc ''Acme Co'')) (Some (asc ''contact@acme.com'')) (asc ''https://acme.com'')
      (Some (asc ''(305) 123-4567'')) (asc ''bing'') [] =
     [\<lparr>Company = asc ''Acme Co'', Email = asc ''contact@acme.com'',
                Website = asc ''https://acme.com'', Phone = asc ''(305) 123-4567'',
                Source = asc ''bing''\<rparr>]"
    by (simp add: upsert_lead_def py_or_empty_def strip_def lstrip_def rstrip_def is_space_def asc_def)
  have up2: "upsert_lead (Some (asc ''Acme Co'')) (Some (asc ''contact@acme.com'')) (asc ''https://acme-flooring.com'')
      (Some (asc ''(305) 123-4567'')) (asc ''bing'')
      [\<lparr>Company = asc ''Acme Co'', Email = asc ''contact@acme.com'',
                Website = asc ''https://acme.com'', Phone = asc ''(305) 123-4567'',
                Source = asc ''bing''\<rparr>] =
     [\<lparr>Company = asc ''Acme Co'', Email = asc ''contact@acme.com'',
                Website = asc ''https://acme.com'', Phone = asc ''(305) 123-4567'',
                Source = asc ''bing''\<rparr>]"
    by (simp add: upsert_lead_def asc_def)
  have t: "truthy (Some (asc ''contact@acme.com''))" "\<not> truthy None"
    by (simp_all add: truthy_def asc_def)
  show ?thesis
    by (simp add: search_and_extract_def two_sites_def cand static_web_def pages extract_404
        acme_extract src up1 up2 t delay_or_default_def)
qed

lemma acme_site_run:
  "probe_pages (static_web acme_web) 0 (asc ''Bing API (recommended)'') (asc ''https://acme.com'')
     (try_candidate_pages (asc ''https://acme.com''))
     \<lparr>leads = [], added = 0, events = [], world = ()\<rparr> =
     \<lparr>leads = [\<lparr>Company = asc ''Acme Co'', Email = asc ''contact@acme.com'',
                Website = asc ''https://acme.com'', Phone = asc ''(305) 123-4567'',
                Source = asc ''bing''\<rparr>],
      added = 1,
      events = [Probe (asc ''https://acme.com'') None, Sleep 10,
                Probe (asc ''https://acme.com/contact'') (Some (asc ''contact@acme.com''))],
      world = ()\<rparr>"
proof -
  have pages: "acme_web (asc ''https://acme.com'') = Response 404 \<lparr>title_string = None, h1_text = None, get_text = []\<rparr>"
    "acme_web (asc ''https://acme.com/contact'') = Response 200 acme_page"
    by (simp_all add: acme_web_def asc_def)
  have cand: "try_candidate_pages (asc ''https://acme.com'') =
      [asc ''https://acme.com'', asc ''https://acme.com/contact'', asc ''https://acme.com/contact-us'',
       asc ''https://acme.com/about'', asc ''https://acme.com/team'']"
    by (simp add: try_candidate_pages_def rstrip_chars_def asc_def)
  have src: "source_of (asc ''Bing API (recommended)'') = asc ''bing''"
    by (simp add: source_of_def startswith_def asc_def)
  have up1: "upsert_lead (Some (asc ''Acme Co'')) (Some (asc ''contact@acme.com'')) (asc ''https://acme.com'')
      (Some (asc ''(305) 123-4567'')) (asc ''bing'') [] =
     [\<lparr>Company = asc ''Acme Co'', Email = asc ''contact@acme.com'',
                Website = asc ''https://acme.com'', Phone = asc ''(305) 123-4567'',
                Source = asc ''bing''\<rparr>]"
    by (simp add: upsert_lead_def py_or_empty_def strip_def lstrip_def rstrip_def is_space_def asc_def)
  have t: "truthy (Some (asc ''contact@acme.com''))" "\<not> truthy None"
    by (simp_all add: truthy_def asc_def)
  show ?thesis
    by (simp add: cand static_web_def pages extract_404 acme_extract src up1 t delay_or_default_def)
qed

lemma probe_pages_run:
  "\<exists>misses.
     (\<forall>x \<in> set misses. \<not> truthy (fst (snd x))) \<and>
     ((fetch_all fetch pages (world st) =
         (misses, world (probe_pages fetch rate_delay provider base pages st)) \<and>
       events (probe_pages fetch rate_delay provider base pages st) =
         events st @ concat (map (\<lambda>(t, x). [Probe t (fst (snd x)), Sleep (delay_or_default rate_delay)])
           (zip pages misses)) \<and>
       leads (probe_pages fetch rate_delay provider base pages st) = leads st \<and>
       added (probe_pages fetch rate_delay provider base pages st) = added st)
      \<or>
      (\<exists>name e phone.
         length misses < length pages \<and>
         fetch_all fetch (take (Suc (length misses)) pages) (world st) =
           (misses @ [(name, Some e, phone)],
            world (probe_pages fetch rate_delay provider base pages st)) \<and>
         e \<noteq> [] \<and>
         events (probe_pages fetch rate_delay provider base pages st) =
           events st @ concat (map (\<lambda>(t, x). [Probe t (fst (snd x)), Sleep (delay_or_default rate_delay)])
             (zip pages misses)) @ [Probe (pages ! length misses) (Some e)] \<and>
         leads (probe_pages fetch rate_delay provider base pages st) =
           upsert_lead name (Some e) base phone (source_of provider) (leads st) \<and>
         added (probe_pages fetch rate_delay provider base pages st) = added st + 1))"
proof (induction pages arbitrary: st)
  case Nil
  show ?case
    by (rule exI [of _ "[]"]) simp
next
  case (Cons target rest)
  obtain r w' where f: "fetch target (world st) = (r, w')"
    by (cases "fetch target (world st)")
  obtain name email phone where x: "extract_company_info r = (name, email, phone)"
    by (cases "extract_company_info r")
  let ?d = "delay_or_default rate_delay"
  let ?ev = "\<lambda>(t, x). [Probe t (fst (snd x)), Sleep ?d]"
  show ?case
  proof (cases "truthy email")
    case True
    then obtain e where e: "email = Some e" "e \<noteq> []"
      by (auto simp: truthy_def split: option.splits)
    have "events (probe_pages fetch rate_delay provider base (target # rest) st) =
           events st @ [Probe target (Some e)]"
      "leads (probe_pages fetch rate_delay provider base (target # rest) st) =
           upsert_lead name (Some e) base phone (source_of provider) (leads st)"
      "added (probe_pages fetch rate_delay provider base (target # rest) st) = added st + 1"
      "world (probe_pages fetch rate_delay provider base (target # rest) st) = w'"
      using f x True e by (simp_all add: Let_def)
    then show ?thesis
      apply -
      apply (rule exI [of _ "[]"])
      apply (rule conjI, simp)
      apply (rule disjI2)
      apply (rule exI [of _ name], rule exI [of _ e], rule exI [of _ phone])
      using e f x by (simp del: probe_pages.simps)
  next
    case False
    let ?st2 = "st\<lparr>world := w', events := events st @ [Probe target email, Sleep ?d]\<rparr>"
    let ?P = "probe_pages fetch rate_delay provider base rest ?st2"
    have step: "probe_pages fetch rate_delay provider base (target # rest) st = ?P"
      using f x False by (simp add: Let_def)
    from Cons.IH [of ?st2] obtain misses where
      m: "\<forall>x \<in> set misses. \<not> truthy (fst (snd x))"
      and alt: "(fetch_all fetch rest (world ?st2) = (misses, world ?P) \<and>
       events ?P = events ?st2 @ concat (map ?ev (zip rest misses)) \<and>
       leads ?P = leads ?st2 \<and> added ?P = added ?st2)
      \<or>
      (\<exists>name e phone.
         length misses < length rest \<and>
         fetch_all fetch (take (Suc (length misses)) rest) (world ?st2) =
           (misses @ [(name, Some e, phone)], world ?P) \<and>
         e \<noteq> [] \<and>
         events ?P = events ?st2 @ concat (map ?ev (zip rest misses)) @
           [Probe (rest ! length misses) (Some e)] \<and>
         leads ?P = upsert_lead name (Some e) base phone (source_of provider) (leads ?st2) \<and>
         added ?P = added ?st2 + 1)"
      by blast
    let ?ms = "(name, email, phone) # misses"
    have m': "\<forall>x \<in> set ?ms. \<not> truthy (fst (snd x))"
      using m False by simp
    from alt show ?thesis
    proof
      assume a: "fetch_all fetch rest (world ?st2) = (misses, world ?P) \<and>
       events ?P = events ?st2 @ concat (map ?ev (zip rest misses)) \<and>
       leads ?P = leads ?st2 \<and> added ?P = added ?st2"
      show ?thesis
        unfolding step
        apply (rule exI [of _ ?ms])
        apply (rule conjI [OF m'])
        apply (rule disjI1)
        using a f x by (simp del: probe_pages.simps)
    next
      assume "\<exists>name e phone.
         length misses < length rest \<and>
         fetch_all fetch (take (Suc (length misses)) rest) (world ?st2) =
           (misses @ [(name, Some e, phone)], world ?P) \<and>
         e \<noteq> [] \<and>
         events ?P = events ?st2 @ concat (map ?ev (zip rest misses)) @
           [Probe (rest ! length misses) (Some e)] \<and>
         leads ?P = upsert_lead name (Some e) base phone (source_of provider) (leads ?st2) \<and>
         added ?P = added ?st2 + 1"
      then obtain nm e ph where b:
         "length misses < length rest"
         "fetch_all fetch (take (Suc (length misses)) rest) (world ?st2) =
           (misses @ [(nm, Some e, ph)], world ?P)"
         "e \<noteq> []"
         "events ?P = events ?st2 @ concat (map ?ev (zip rest misses)) @
           [Probe (rest ! length misses) (Some e)]"
         "leads ?P = upsert_lead nm (Some e) base ph (source_of provider) (leads ?st2)"
         "added ?P = added ?st2 + 1"
        by blast
      show ?thesis
        unfolding step
        apply (rule exI [of _ ?ms])
        apply (rule conjI [OF m'])
        apply (rule disjI2)
        apply (rule exI [of _ nm], rule exI [of _ e], rule exI [of _ ph])
        using b f x by (simp del: probe_pages.simps)
    qed
  qed
qed


lemma length_fetch_all: "length (fst (fetch_all fetch pages w)) = length pages"
proof (induction pages arbitrary: w)
  case Nil
  show ?case by simp
next
  case (Cons t ts)
  obtain r w1 where f: "fetch t w = (r, w1)"
    by (cases "fetch t w")
  obtain xs w2 where g: "fetch_all fetch ts w1 = (xs, w2)"
    by (cases "fetch_all fetch ts w1")
  from Cons.IH [of w1] g have "length xs = length ts"
    by simp
  with f g show ?case
    by simp
qed

lemma slashes_replicate: "concat (replicate k (asc ''/'')) = replicate k 47"
  by (induction k) (simp_all add: asc_def)

lemma endswith_slash: "endswith s (asc ''/'') \<longleftrightarrow> s \<noteq> [] \<and> last s = 47"
proof (cases s rule: rev_cases)
  case Nil
  then show ?thesis by (simp add: endswith_def asc_def)
next
  case (snoc t c)
  then show ?thesis by (auto simp: endswith_def asc_def)
qed

lemma rstrip_chars_slashes:
  "\<exists>k. base = rstrip_chars base (asc ''/'') @ concat (replicate k (asc ''/'')) \<and>
     \<not> endswith (rstrip_chars base (asc ''/'')) (asc ''/'')"
proof -
  let ?P = "\<lambda>c. c \<in> set (asc ''/'')"
  let ?k = "length (takeWhile ?P (rev base))"
  have P: "?P c \<longleftrightarrow> c = 47" for c
    by (simp add: asc_def)
  have "\<forall>c \<in> set (takeWhile ?P (rev base)). c = 47"
    using P by (metis set_takeWhileD)
  then have t: "takeWhile ?P (rev base) = replicate ?k 47"
    by (simp add: replicate_length_same)
  have "rev base = takeWhile ?P (rev base) @ dropWhile ?P (rev base)"
    by simp
  then have "base = rev (dropWhile ?P (rev base)) @ rev (takeWhile ?P (rev base))"
    by (metis rev_append rev_rev_ident)
  moreover from t have "rev (takeWhile ?P (rev base)) = replicate ?k 47"
    by (metis rev_replicate)
  ultimately have a: "base = rstrip_chars base (asc ''/'') @ concat (replicate ?k (asc ''/''))"
    unfolding rstrip_chars_def slashes_replicate by simp
  have b: "\<not> endswith (rstrip_chars base (asc ''/'')) (asc ''/'')"
  proof (cases "dropWhile ?P (rev base) = []")
    case True
    then show ?thesis by (simp add: rstrip_chars_def endswith_slash)
  next
    case False
    then have "\<not> ?P (hd (dropWhile ?P (rev base)))"
      by (rule hd_dropWhile)
    with False show ?thesis
      by (simp add: rstrip_chars_def endswith_slash last_rev P)
  qed
  from a b show ?thesis
    by blast
qed

lemma unslash_unique:
  assumes "\<not> endswith root (asc ''/'')"
  shows "rstrip_chars (root @ concat (replicate k (asc ''/''))) (asc ''/'') = root"
proof -
  have "dropWhile (\<lambda>c. c \<in> set (asc ''/'')) (replicate k 47 @ rev root) = rev root"
  proof (cases "rev root")
    case Nil
    then show ?thesis by (simp add: asc_def dropWhile_append3)
  next
    case (Cons c t)
    with assms have "c \<noteq> 47"
      by (cases root rule: rev_cases) (auto simp: endswith_slash)
    with Cons show ?thesis
      by (induction k) (simp_all add: asc_def)
  qed
  then show ?thesis
    by (simp add: rstrip_chars_def slashes_replicate)
qed

lemma none_404:
  "acme_web (asc ''https://none.org'') = Response 404 \<lparr>title_string = None, h1_text = None, get_text = []\<rparr>"
  "acme_web (asc ''https://none.org/contact'') = Response 404 \<lparr>title_string = None, h1_text = None, get_text = []\<rparr>"
  "acme_web (asc ''https://none.org/contact-us'') = Response 404 \<lparr>title_string = None, h1_text = None, get_text = []\<rparr>"
  "acme_web (asc ''https://none.org/about'') = Response 404 \<lparr>title_string = None, h1_text = None, get_text = []\<rparr>"
  "acme_web (asc ''https://none.org/team'') = Response 404 \<lparr>title_string = None, h1_text = None, get_text = []\<rparr>"
  by (simp_all add: acme_web_def asc_def)

text \<open>
  C7. Every base URL is a root that does not end in a slash, followed by some slashes
  (none when the base ends in none), and the candidate pages of the site are the base
  itself and then the root with \<open>/contact\<close>, \<open>/contact-us\<close>, \<open>/about\<close> and \<open>/team\<close>, in
  this order. Whatever the web answers, the scan of one site fetches these pages from the
  front of the list, one after the other, and hands each answer to the extractor. Every
  page that gives no address (none, or the empty one) is logged and followed by one sleep
  of the slider's value, or of one second (ten tenths) when the slider stands at zero.
  Either all five pages gave no address: then all five were fetched, and the store and the
  counter are as before. Or the first page that gives an address which is not empty is
  the last one fetched: that lead is upserted with the base as its website and with the
  name and phone of that same page, the counter goes up by one, and no sleep and no
  further page of the site follow.
\<close>

theorem probe_pages_in_order:
  assumes "probe_pages fetch rate_delay provider base (try_candidate_pages base) st = st'"
  shows "\<exists>root k misses.
    base = root @ concat (replicate k (asc ''/'')) \<and> \<not> endswith root (asc ''/'') \<and>
    try_candidate_pages base =
      [base, root @ asc ''/contact'', root @ asc ''/contact-us'', root @ asc ''/about'',
       root @ asc ''/team''] \<and>
    (\<forall>x \<in> set misses. fst (snd x) = None \<or> fst (snd x) = Some []) \<and>
    ((length misses = 5 \<and>
      fetch_all fetch (try_candidate_pages base) (world st) = (misses, world st') \<and>
      events st' = events st @
        concat (map (\<lambda>(t, x). [Probe t (fst (snd x)),
                                Sleep (if rate_delay = 0 then 10 else rate_delay)])
          (zip (try_candidate_pages base) misses)) \<and>
      leads st' = leads st \<and> added st' = added st)
     \<or>
     (\<exists>name e phone.
        length misses < 5 \<and>
        fetch_all fetch (take (Suc (length misses)) (try_candidate_pages base)) (world st) =
          (misses @ [(name, Some e, phone)], world st') \<and>
        e \<noteq> [] \<and>
        events st' = events st @
          concat (map (\<lambda>(t, x). [Probe t (fst (snd x)),
                                  Sleep (if rate_delay = 0 then 10 else rate_delay)])
            (zip (try_candidate_pages base) misses)) @
          [Probe (try_candidate_pages base ! length misses) (Some e)] \<and>
        leads st' = upsert_lead name (Some e) base phone (source_of provider) (leads st) \<and>
        added st' = added st + 1))"
proof -
  let ?root = "rstrip_chars base (asc ''/'')"
  let ?pages = "try_candidate_pages base"
  from rstrip_chars_slashes [of base] obtain k where
    k: "base = ?root @ concat (replicate k (asc ''/''))" "\<not> endswith ?root (asc ''/'')"
    by blast
  have pages: "?pages =
      [base, ?root @ asc ''/contact'', ?root @ asc ''/contact-us'', ?root @ asc ''/about'',
       ?root @ asc ''/team'']"
    by (simp add: try_candidate_pages_def Let_def)
  then have len: "length ?pages = 5"
    by simp
  have tr: "\<not> truthy y \<longleftrightarrow> y = None \<or> y = Some []" for y
    by (cases y) (simp_all add: truthy_def)
  from probe_pages_run [of fetch ?pages st rate_delay provider base]
  obtain misses where
    m: "\<forall>x \<in> set misses. \<not> truthy (fst (snd x))"
    and alt: "(fetch_all fetch ?pages (world st) = (misses, world st') \<and>
       events st' = events st @
         concat (map (\<lambda>(t, x). [Probe t (fst (snd x)), Sleep (delay_or_default rate_delay)])
           (zip ?pages misses)) \<and>
       leads st' = leads st \<and> added st' = added st)
      \<or>
      (\<exists>name e phone.
         length misses < length ?pages \<and>
         fetch_all fetch (take (Suc (length misses)) ?pages) (world st) =
           (misses @ [(name, Some e, phone)], world st') \<and>
         e \<noteq> [] \<and>
         events st' = events st @
           concat (map (\<lambda>(t, x). [Probe t (fst (snd x)), Sleep (delay_or_default rate_delay)])
             (zip ?pages misses)) @ [Probe (?pages ! length misses) (Some e)] \<and>
         leads st' = upsert_lead name (Some e) base phone (source_of provider) (leads st) \<and>
         added st' = added st + 1)"
    unfolding assms by blast
  have m': "\<forall>x \<in> set misses. fst (snd x) = None \<or> fst (snd x) = Some []"
    using m tr by blast
  have d: "delay_or_default rate_delay = (if rate_delay = 0 then 10 else rate_delay)"
    by (simp add: delay_or_default_def)
  have alt': "(length misses = 5 \<and>
      fetch_all fetch ?pages (world st) = (misses, world st') \<and>
      events st' = events st @
        concat (map (\<lambda>(t, x). [Probe t (fst (snd x)),
                                Sleep (if rate_delay = 0 then 10 else rate_delay)])
          (zip ?pages misses)) \<and>
      leads st' = leads st \<and> added st' = added st)
     \<or>
     (\<exists>name e phone.
        length misses < 5 \<and>
        fetch_all fetch (take (Suc (length misses)) ?pages) (world st) =
          (misses @ [(name, Some e, phone)], world st') \<and>
        e \<noteq> [] \<and>
        events st' = events st @
          concat (map (\<lambda>(t, x). [Probe t (fst (snd x)),
                                  Sleep (if rate_delay = 0 then 10 else rate_delay)])
            (zip ?pages misses)) @
          [Probe (?pages ! length misses) (Some e)] \<and>
        leads st' = upsert_lead name (Some e) base phone (source_of provider) (leads st) \<and>
        added st' = added st + 1)"
    using alt
  proof
    assume a: "fetch_all fetch ?pages (world st) = (misses, world st') \<and>
       events st' = events st @
         concat (map (\<lambda>(t, x). [Probe t (fst (snd x)), Sleep (delay_or_default rate_delay)])
           (zip ?pages misses)) \<and>
       leads st' = leads st \<and> added st' = added st"
    then have "length misses = 5"
      using length_fetch_all [of fetch ?pages "world st"] len by simp
    with a show ?thesis
      unfolding d by blast
  next
    assume "\<exists>name e phone.
         length misses < length ?pages \<and>
         fetch_all fetch (take (Suc (length misses)) ?pages) (world st) =
           (misses @ [(name, Some e, phone)], world st') \<and>
         e \<noteq> [] \<and>
         events st' = events st @
           concat (map (\<lambda>(t, x). [Probe t (fst (snd x)), Sleep (delay_or_default rate_delay)])
             (zip ?pages misses)) @ [Probe (?pages ! length misses) (Some e)] \<and>
         leads st' = upsert_lead name (Some e) base phone (source_of provider) (leads st) \<and>
         added st' = added st + 1"
    then show ?thesis
      unfolding d len by (intro disjI2)
  qed
  show ?thesis
    apply (rule exI [of _ ?root], rule exI [of _ k], rule exI [of _ misses])
    apply (intro conjI)
        apply (rule k(1))
       apply (rule k(2))
      apply (rule pages)
     apply (rule m')
    apply (rule alt')
    done
qed


theorem probe_pages_in_order_witness:
  "probe_pages (static_web acme_web) 5 (asc ''Bing API (recommended)'') (asc ''https://acme.com/'')
     (try_candidate_pages (asc ''https://acme.com/''))
     \<lparr>leads = [], added = 0, events = [], world = ()\<rparr> =
     \<lparr>leads = [\<lparr>Company = asc ''Acme Co'', Email = asc ''contact@acme.com'',
                Website = asc ''https://acme.com/'', Phone = asc ''(305) 123-4567'',
                Source = asc ''bing''\<rparr>],
      added = 1,
      events = [Probe (asc ''https://acme.com/'') None, Sleep 5,
                Probe (asc ''https://acme.com/contact'') (Some (asc ''contact@acme.com''))],
      world = ()\<rparr> \<and>
   try_candidate_pages (asc ''https://acme.com/'') =
     [asc ''https://acme.com/'', asc ''https://acme.com/contact'',
      asc ''https://acme.com/contact-us'', asc ''https://acme.com/about'',
      asc ''https://acme.com/team''] \<and>
   events (probe_pages (static_web acme_web) 0 (asc ''Bing API (recommended)'')
       (asc ''https://acme.com'') (try_candidate_pages (asc ''https://acme.com''))
       \<lparr>leads = [], added = 0, events = [], world = ()\<rparr>) =
     [Probe (asc ''https://acme.com'') None, Sleep 10,
      Probe (asc ''https://acme.com/contact'') (Some (asc ''contact@acme.com''))] \<and>
   probe_pages (static_web acme_web) 20 (asc ''Bing API (recommended)'') (asc ''https://none.org'')
     (try_candidate_pages (asc ''https://none.org''))
     \<lparr>leads = [], added = 0, events = [], world = ()\<rparr> =
     \<lparr>leads = [], added = 0,
      events = [Probe (asc ''https://none.org'') None, Sleep 20,
                Probe (asc ''https://none.org/contact'') None, Sleep 20,
                Probe (asc ''https://none.org/contact-us'') None, Sleep 20,
                Probe (asc ''https://none.org/about'') None, Sleep 20,
                Probe (asc ''https://none.org/team'') None, Sleep 20],
      world = ()\<rparr>"
proof -
  have pages: "acme_web (asc ''https://acme.com/'') = Response 404 \<lparr>title_string = None, h1_text = None, get_text = []\<rparr>"
    "acme_web (asc ''https://acme.com/contact'') = Response 200 acme_page"
    by (simp_all add: acme_web_def asc_def)
  have cand0: "try_candidate_pages (asc ''https://acme.com/'') =
      [asc ''https://acme.com/'', asc ''https://acme.com/contact'', asc ''https://acme.com/contact-us'',
       asc ''https://acme.com/about'', asc ''https://acme.com/team'']"
    by (simp add: try_candidate_pages_def rstrip_chars_def asc_def)
  have src: "source_of (asc ''Bing API (recommended)'') = asc ''bing''"
    by (simp add: source_of_def startswith_def asc_def)
  have up1: "upsert_lead (Some (asc ''Acme Co'')) (Some (asc ''contact@acme.com'')) (asc ''https://acme.com/'')
      (Some (asc ''(305) 123-4567'')) (asc ''bing'') [] =
     [\<lparr>Company = asc ''Acme Co'', Email = asc ''contact@acme.com'',
                Website = asc ''https://acme.com/'', Phone = asc ''(305) 123-4567'',
                Source = asc ''bing''\<rparr>]"
    by (simp add: upsert_lead_def py_or_empty_def strip_def lstrip_def rstrip_def is_space_def asc_def)
  have t: "truthy (Some (asc ''contact@acme.com''))" "\<not> truthy None"
    by (simp_all add: truthy_def asc_def)
  have run: "probe_pages (static_web acme_web) 5 (asc ''Bing API (recommended)'') (asc ''https://acme.com/'')
     (try_candidate_pages (asc ''https://acme.com/''))
     \<lparr>leads = [], added = 0, events = [], world = ()\<rparr> =
     \<lparr>leads = [\<lparr>Company = asc ''Acme Co'', Email = asc ''contact@acme.com'',
                Website = asc ''https://acme.com/'', Phone = asc ''(305) 123-4567'',
                Source = asc ''bing''\<rparr>],
      added = 1,
      events = [Probe (asc ''https://acme.com/'') None, Sleep 5,
                Probe (asc ''https://acme.com/contact'') (Some (asc ''contact@acme.com''))],
      world = ()\<rparr>"
    by (simp add: cand0 static_web_def pages extract_404 acme_extract src up1 t delay_or_default_def)
  from probe_pages_in_order [OF run] obtain root k where
    r: "asc ''https://acme.com/'' = root @ concat (replicate k (asc ''/''))"
      "\<not> endswith root (asc ''/'')"
      "try_candidate_pages (asc ''https://acme.com/'') =
        [asc ''https://acme.com/'', root @ asc ''/contact'', root @ asc ''/contact-us'',
         root @ asc ''/about'', root @ asc ''/team'']"
    by (elim exE conjE) (rule that)
  have "rstrip_chars (asc ''https://acme.com/'') (asc ''/'') = asc ''https://acme.com''"
    by (simp add: rstrip_chars_def asc_def)
  with unslash_unique [OF r(2), of k] r(1) have root: "root = asc ''https://acme.com''"
    by simp
  have cand: "try_candidate_pages (asc ''https://acme.com/'') =
     [asc ''https://acme.com/'', asc ''https://acme.com/contact'',
      asc ''https://acme.com/contact-us'', asc ''https://acme.com/about'',
      asc ''https://acme.com/team'']"
    unfolding r(3) root by (simp add: asc_def)
  have zero: "events (probe_pages (static_web acme_web) 0 (asc ''Bing API (recommended)'')
       (asc ''https://acme.com'') (try_candidate_pages (asc ''https://acme.com''))
       \<lparr>leads = [], added = 0, events = [], world = ()\<rparr>) =
     [Probe (asc ''https://acme.com'') None, Sleep 10,
      Probe (asc ''https://acme.com/contact'') (Some (asc ''contact@acme.com''))]"
    by (simp only: acme_site_run) simp
  have candn: "try_candidate_pages (asc ''https://none.org'') =
      [asc ''https://none.org'', asc ''https://none.org/contact'', asc ''https://none.org/contact-us'',
       asc ''https://none.org/about'', asc ''https://none.org/team'']"
    by (simp add: try_candidate_pages_def rstrip_chars_def asc_def)
  have none: "probe_pages (static_web acme_web) 20 (asc ''Bing API (recommended)'') (asc ''https://none.org'')
     (try_candidate_pages (asc ''https://none.org''))
     \<lparr>leads = [], added = 0, events = [], world = ()\<rparr> =
     \<lparr>leads = [], added = 0,
      events = [Probe (asc ''https://none.org'') None, Sleep 20,
                Probe (asc ''https://none.org/contact'') None, Sleep 20,
                Probe (asc ''https://none.org/contact-us'') None, Sleep 20,
                Probe (asc ''https://none.org/about'') None, Sleep 20,
                Probe (asc ''https://none.org/team'') None, Sleep 20],
      world = ()\<rparr>"
    by (simp add: candn static_web_def none_404 extract_404 t delay_or_default_def)
  show ?thesis
    by (intro conjI run cand zero none)
qed

text \<open>
  C10. Over a whole scan the counter \<open>added\<close> grows by the number of probes that found
  an address, whether or not \<open>upsert_lead\<close> then appended a row, and the store grows by
  at most that number. Two sites that show the same address make the counter 2 while one
  row is added.
\<close>

theorem added_counts_probes_not_rows:
  "(\<exists>evs. events (scan_sites fetch rate_delay provider urls st) = events st @ evs \<and>
      added (scan_sites fetch rate_delay provider urls st) = added st + length (filter is_hit evs) \<and>
      length (leads st) \<le> length (leads (scan_sites fetch rate_delay provider urls st)) \<and>
      length (leads (scan_sites fetch rate_delay provider urls st))
        \<le> length (leads st) + length (filter is_hit evs)) \<and>
   added (search_and_extract (static_web acme_web) 0 (asc ''Bing API (recommended)'') two_sites [] ())
     = 2 \<and>
   length (leads (search_and_extract (static_web acme_web) 0 (asc ''Bing API (recommended)'')
     two_sites [] ())) = 1"
  using scan_sites_counts [of fetch rate_delay provider urls st]
  by (simp only: two_sites_run) simp

theorem added_counts_probes_not_rows_witness:
  "added (search_and_extract (static_web acme_web) 0 (asc ''Bing API (recommended)'') two_sites [] ())
     = 2 \<and>
   length (leads (search_and_extract (static_web acme_web) 0 (asc ''Bing API (recommended)'')
     two_sites [] ())) = 1 \<and>
   map Email (leads (search_and_extract (static_web acme_web) 0 (asc ''Bing API (recommended)'')
     two_sites [] ())) = [asc ''contact@acme.com'']"
  using added_counts_probes_not_rows [of "static_web acme_web" 0 "asc ''Bing API (recommended)''"
      two_sites "\<lparr>leads = [], added = 0, events = [], world = ()\<rparr>"]
  by (simp add: two_sites_run)

section \<open>Import and export\<close>





lemma lead_columns_titled: "map (\<lambda>c. title (strip c)) LEAD_COLUMNS = LEAD_COLUMNS"
  by (simp add: LEAD_COLUMNS_def title_def strip_def lstrip_def rstrip_def is_space_def asc_def
      title_cp_def lower_cp_def is_cased_def is_ascii_alpha_def)

lemma row_get_lead:
  "row_get LEAD_COLUMNS [c, e, w, p, s] (asc ''Company'') = [c]"
  "row_get LEAD_COLUMNS [c, e, w, p, s] (asc ''Email'') = [e]"
  "row_get LEAD_COLUMNS [c, e, w, p, s] (asc ''Website'') = [w]"
  "row_get LEAD_COLUMNS [c, e, w, p, s] (asc ''Phone'') = [p]"
  by (simp_all add: row_get_def LEAD_COLUMNS_def asc_def)



lemma strip_idem: "strip (strip s) = strip s"
  unfolding strip_def lstrip_def rstrip_def
  by (metis (no_types, lifting) ext dropWhile_eq_Nil_conv
    dropWhile_eq_self_iff dropWhile_last hd_dropWhile hd_rev rev_is_Nil_conv
    rev_swap)

lemma import_rows_appends:
  "import_rows cols rs (df, existing, imported) = (df', rep) \<Longrightarrow>
   \<exists>new. df' = df @ new \<and>
     (\<forall>r \<in> set new. Source r = asc ''import'' \<and> accepted (Email r) \<and> lower (Email r) \<notin> existing) \<and>
     distinct (map (\<lambda>r. lower (Email r)) new) \<and>
     (\<forall>n. rep = Imported n \<longrightarrow> n = imported + length new)"
proof (induction rs arbitrary: df existing imported)
  case Nil
  then show ?case
    by (intro exI [of _ "[]"]) auto
next
  case (Cons row rest)
  show ?case
  proof (cases "str_or_empty (row_get cols row (asc ''Email''))")
    case (Inl err)
    with Cons.prems show ?thesis
      by (intro exI [of _ "[]"]) auto
  next
    case (Inr e)
    let ?email = "strip e"
    show ?thesis
    proof (cases "?email = [] \<or> \<not> re_match EMAIL_RE ?email \<or> lower ?email \<in> existing")
      case True
      with Inr Cons.prems have "import_rows cols rest (df, existing, imported) = (df', rep)"
        by (auto simp: Let_def split: if_splits)
      from Cons.IH [OF this] show ?thesis .
    next
      case False
      then have ok: "?email \<noteq> []" "re_match EMAIL_RE ?email" "lower ?email \<notin> existing"
        by auto
      show ?thesis
      proof (cases "\<exists>c w p. str_or_empty (row_get cols row (asc ''Company'')) = Inr c \<and>
          str_or_empty (row_get cols row (asc ''Website'')) = Inr w \<and>
          str_or_empty (row_get cols row (asc ''Phone'')) = Inr p")
        case False
        with Inr ok Cons.prems have "df' = df" "rep = ImportFailed"
          by (auto simp: Let_def split: sum.splits)
        then show ?thesis
          by (intro exI [of _ "[]"]) auto
      next
        case True
        then obtain c w p where cwp:
          "str_or_empty (row_get cols row (asc ''Company'')) = Inr c"
          "str_or_empty (row_get cols row (asc ''Website'')) = Inr w"
          "str_or_empty (row_get cols row (asc ''Phone'')) = Inr p"
          by blast
        let ?l = "\<lparr>Company = take 120 c, Email = ?email, Website = w, Phone = p, Source = asc ''import''\<rparr>"
        from Inr ok cwp Cons.prems have run:
          "import_rows cols rest (df @ [?l], insert (lower ?email) existing, imported + 1) = (df', rep)"
          by (simp add: Let_def)
        from Cons.IH [OF run] obtain new where new: "df' = (df @ [?l]) @ new"
          "\<forall>r \<in> set new. Source r = asc ''import'' \<and> accepted (Email r) \<and>
              lower (Email r) \<notin> insert (lower ?email) existing"
          "distinct (map (\<lambda>r. lower (Email r)) new)"
          "\<forall>n. rep = Imported n \<longrightarrow> n = (imported + 1) + length new"
          by blast
        have acc: "accepted ?email"
          using ok by (simp add: accepted_def strip_idem)
        have "lower ?email \<notin> set (map (\<lambda>r. lower (Email r)) new)"
          using new(2) by auto
        with new acc ok(3) show ?thesis
          by (intro exI [of _ "?l # new"]) auto
      qed
    qed
  qed
qed




lemma import_leads_count:
  assumes "import_leads up df = (df', rep)"
  shows "\<exists>new. df' = df @ new \<and> (\<forall>r \<in> set new. Source r = asc ''import'' \<and> accepted (Email r) \<and>
      lower (Email r) \<notin> set (map (\<lambda>r. lower (Email r)) df)) \<and>
      (\<forall>n. rep = Imported n \<longrightarrow> n = length new)"
proof (cases up)
  case None
  with assms show ?thesis by (intro exI [of _ "[]"]) (auto simp: import_leads_def)
next
  case (Some new)
  with assms have "import_rows (map (\<lambda>c. title (strip c)) (columns new)) (rows new)
      (df, set (map (\<lambda>r. lower (Email r)) df), 0) = (df', rep)"
    by (simp add: import_leads_def Let_def)
  from import_rows_appends [OF this] show ?thesis
    by auto
qed






lemma blank_import:
  "import_leads (Some blank_fields_frame) [] =
     ([\<lparr>Company = asc ''nan'', Email = asc ''contact@acme.com'', Website = asc ''https://acme.com'',
        Phone = asc ''nan'', Source = asc ''import''\<rparr>], Imported 1)"
proof -
  have st: "strip (asc ''contact@acme.com'') = asc ''contact@acme.com''"
    by (simp add: strip_def lstrip_def rstrip_def is_space_def asc_def)
  have m: "re_match EMAIL_RE (asc ''contact@acme.com'')"
    by (simp add: re_defs cong: try_counts_weak_cong)
  have ne: "asc ''contact@acme.com'' \<noteq> []"
    by (simp add: asc_def)
  have tk: "take 120 (asc ''nan'') = asc ''nan''"
    by (simp add: asc_def)
  show ?thesis
    by (simp add: import_leads_def blank_fields_frame_def lead_columns_titled row_get_lead
        st m ne tk Let_def)
qed

lemma bare_store:
  "leads (search_and_extract (static_web bare_web) 0 (asc ''Bing API (recommended)'')
      [asc ''https://acme.com''] [] ()) =
   [\<lparr>Company = [], Email = asc ''contact@acme.com'', Website = asc ''https://acme.com'', Phone = [],
      Source = asc ''bing''\<rparr>]"
proof -
  have x: "extract_company_info (Response 200 bare_page) = (None, Some (asc ''contact@acme.com''), None)"
    by (simp add: extract_company_info_def raise_for_status_def bare_page_def company_of_def
      truthy_def first_or_none_def re_defs cong: try_counts_weak_cong)
  have src: "source_of (asc ''Bing API (recommended)'') = asc ''bing''"
    by (simp add: source_of_def startswith_def asc_def)
  have up: "upsert_lead None (Some (asc ''contact@acme.com'')) (asc ''https://acme.com'') None (asc ''bing'') [] =
     [\<lparr>Company = [], Email = asc ''contact@acme.com'', Website = asc ''https://acme.com'', Phone = [],
      Source = asc ''bing''\<rparr>]"
    by (simp add: upsert_lead_def py_or_empty_def strip_def lstrip_def rstrip_def is_space_def asc_def)
  have t: "truthy (Some (asc ''contact@acme.com''))"
    by (simp add: truthy_def asc_def)
  show ?thesis
    by (simp add: search_and_extract_def try_candidate_pages_def static_web_def bare_web_def
        x src up t Let_def)
qed

lemma bare_read_back:
  "read_back [\<lparr>Company = [], Email = asc ''contact@acme.com'', Website = asc ''https://acme.com'', Phone = [],
      Source = asc ''bing''\<rparr>] = blank_fields_frame"
  by (simp add: read_back_def blank_fields_frame_def read_field_def NA_VALUES_def asc_def)




text \<open>
  C9. An imported row is to get the empty string for a company, website or phone that is
  missing. A lead scraped from a page with no title, no heading and no phone number has an
  empty Company and an empty Phone; \<open>to_csv\<close> writes them as empty fields and \<open>read_csv\<close>
  reads those as \<open>NaN\<close>. In \<open>str(row.get("Company", "") or "")\<close> the \<open>NaN\<close> is true, so
  the default is not taken: the imported row has the Company \<open>nan\<close> and the Phone
  \<open>nan\<close>, not the empty string.
\<close>

theorem import_blank_fields_become_nan:
  "read_back (leads (search_and_extract (static_web bare_web) 0 (asc ''Bing API (recommended)'')
      [asc ''https://acme.com''] [] ())) = blank_fields_frame \<and>
   import_leads (Some blank_fields_frame) [] =
     ([\<lparr>Company = asc ''nan'', Email = asc ''contact@acme.com'', Website = asc ''https://acme.com'',
        Phone = asc ''nan'', Source = asc ''import''\<rparr>], Imported 1)"
  by (simp only: bare_store bare_read_back blank_import)

section \<open>What does hold of the lead store\<close>

text \<open>
  For an address with no blank around it \<open>upsert_lead\<close> keeps the addresses of the store
  different but for case, and drops an address that is there already, in any letter case;
  so does every import, and so does every run of such upserts and of imports.
\<close>

lemma upsert_lead_duplicate:
  "lower e \<in> set (map (\<lambda>r. lower (Email r)) df) \<Longrightarrow>
   upsert_lead name (Some e) website phone source df = df"
  by (simp add: upsert_lead_def)

lemma upsert_lead_distinct:
  assumes "strip e = e" "distinct (map (\<lambda>r. lower (Email r)) df)"
  shows "distinct (map (\<lambda>r. lower (Email r)) (upsert_lead name (Some e) website phone source df))"
  using assms by (simp add: upsert_lead_def Let_def)

lemma import_leads_distinct:
  assumes "distinct (map (\<lambda>r. lower (Email r)) df)" "import_leads up df = (df', rep)"
  shows "distinct (map (\<lambda>r. lower (Email r)) df')"
proof -
  let ?ex = "set (map (\<lambda>r. lower (Email r)) df)"
  from import_leads_count [OF assms(2)] obtain nw where nw: "df' = df @ nw"
    "\<forall>r \<in> set nw. Source r = asc ''import'' \<and> accepted (Email r) \<and> lower (Email r) \<notin> ?ex"
    by blast
  obtain df2 rep2 where "import_leads up df = (df2, rep2)"
    by (cases "import_leads up df")
  have d: "distinct (map (\<lambda>r. lower (Email r)) nw)"
  proof (cases up)
    case None
    with assms(2) nw(1) show ?thesis by (simp add: import_leads_def)
  next
    case (Some new)
    with assms(2) have "import_rows (map (\<lambda>c. title (strip c)) (columns new)) (rows new)
        (df, ?ex, 0) = (df', rep)"
      by (simp add: import_leads_def Let_def)
    from import_rows_appends [OF this] nw(1) show ?thesis
      by auto
  qed
  have "?ex \<inter> set (map (\<lambda>r. lower (Email r)) nw) = {}"
  proof (rule ccontr)
    assume "?ex \<inter> set (map (\<lambda>r. lower (Email r)) nw) \<noteq> {}"
    then obtain x where "x \<in> ?ex" "x \<in> set (map (\<lambda>r. lower (Email r)) nw)"
      by blast
    then obtain ra where "ra \<in> set nw" "lower (Email ra) \<in> ?ex"
      by (auto simp: image_iff) metis
    with nw(2) show False
      by blast
  qed
  with assms(1) d nw(1) show ?thesis
    by simp
qed

section \<open>The search adapters\<close>

lemma acme_filter: "looks_like_business_site plain_netloc (asc ''https://acme.com'')"
  by (simp add: looks_like_business_site_def domain_of_def plain_netloc_def is_scheme_def asc_def
      startswith_def endswith_def lower_def lower_cp_def SOCIAL_DOMAINS_def Let_def)

text \<open>
  C4. The specification has every status outside 2xx give the empty sequence. The adapters call
  \<open>raise_for_status\<close>, which raises for the statuses 400 to 599 only: a response with
  the status 300 (Multiple Choices, which the client does not follow when it names no
  location) and a body of search results is read like a 200, and both adapters return its
  URL.
\<close>

theorem search_status_300_not_empty:
  "search_bing_api plain_netloc (answers 300) (asc ''Builders'') (asc ''key'') 20
     = [asc ''https://acme.com''] \<and>
   search_serp_api plain_netloc (answers 300) (asc ''Mozilla/5.0'') (asc ''Builders'')
     (asc ''https://serp.example/search'') (asc ''key'') (asc ''GET'') (Some (asc ''X-API-KEY'')) None 20
     = [asc ''https://acme.com'']"
proof -
  have u: "asc ''https://acme.com'' \<noteq> []" "asc ''webPages'' \<noteq> asc ''results''"
    by (simp_all add: asc_def)
  have k: "asc ''key'' \<noteq> []" "asc ''https://serp.example/search'' \<noteq> []"
    by (simp_all add: asc_def)
  show ?thesis
    by (simp add: search_bing_api_def search_serp_api_def answers_def json_of_def
        raise_for_status_def acme_results_def urls_of_data_def slice_to_def acme_filter u k)
qed

text \<open>
  C4, as amended. Both adapters fail soft: with no key (for the generic adapter, also with
  no base URL), when the request fails (a timeout, no connection), when the status is
  from 400 to 599, and when the body is no JSON, the result is the empty sequence. No
  error reaches the caller in any case: each adapter is a function into the lists of
  URLs, and every exception of the block it guards becomes the empty list.
\<close>

theorem search_adapters_fail_soft:
  "(key = [] \<longrightarrow> search_bing_api netloc http query key count = []) \<and>
   (http (bing_request query key count) = Failed \<longrightarrow>
      search_bing_api netloc http query key count = []) \<and>
   (http (bing_request query key count) = Response status body \<and> 400 \<le> status \<and> status < 600 \<longrightarrow>
      search_bing_api netloc http query key count = []) \<and>
   (http (bing_request query key count) = Response status None \<longrightarrow>
      search_bing_api netloc http query key count = []) \<and>
   (base_url = [] \<or> key = [] \<longrightarrow>
      search_serp_api netloc http ua query base_url key meth auth_header key_param count = []) \<and>
   (http (serp_request ua query base_url key meth auth_header key_param count) = Failed \<longrightarrow>
      search_serp_api netloc http ua query base_url key meth auth_header key_param count = []) \<and>
   (http (serp_request ua query base_url key meth auth_header key_param count) = Response status body \<and>
      400 \<le> status \<and> status < 600 \<longrightarrow>
      search_serp_api netloc http ua query base_url key meth auth_header key_param count = []) \<and>
   (http (serp_request ua query base_url key meth auth_header key_param count) = Response status None \<longrightarrow>
      search_serp_api netloc http ua query base_url key meth auth_header key_param count = [])"
  by (simp add: search_bing_api_def search_serp_api_def json_of_def raise_for_status_def)

theorem search_adapters_fail_soft_witness:
  "answers 404 (bing_request (asc ''Builders'') (asc ''key'') 20) = Response 404 (Some acme_results) \<and>
   search_bing_api plain_netloc (answers 404) (asc ''Builders'') (asc ''key'') 20 = [] \<and>
   search_serp_api plain_netloc (answers 404) (asc ''Mozilla/5.0'') (asc ''Builders'')
     (asc ''https://serp.example/search'') (asc ''key'') (asc ''GET'') (Some (asc ''X-API-KEY'')) None 20
     = [] \<and>
   search_bing_api plain_netloc (answers 200) (asc ''Builders'') [] 20 = []"
proof -
  have a: "answers 404 (bing_request (asc ''Builders'') (asc ''key'') 20) = Response 404 (Some acme_results)"
    "answers 404 (serp_request (asc ''Mozilla/5.0'') (asc ''Builders'') (asc ''https://serp.example/search'')
       (asc ''key'') (asc ''GET'') (Some (asc ''X-API-KEY'')) None 20) = Response 404 (Some acme_results)"
    by (simp_all add: answers_def)
  have s: "(400::nat) \<le> 404 \<and> (404::nat) < 600"
    by simp
  from search_adapters_fail_soft [of "asc ''key''" plain_netloc "answers 404" "asc ''Builders''" 20
      404 "Some acme_results" "asc ''https://serp.example/search''" "asc ''Mozilla/5.0''"
      "asc ''GET''" "Some (asc ''X-API-KEY'')" None] a s
  have "search_bing_api plain_netloc (answers 404) (asc ''Builders'') (asc ''key'') 20 = []"
    "search_serp_api plain_netloc (answers 404) (asc ''Mozilla/5.0'') (asc ''Builders'')
     (asc ''https://serp.example/search'') (asc ''key'') (asc ''GET'') (Some (asc ''X-API-KEY'')) None 20
     = []"
    by blast+
  moreover from search_adapters_fail_soft [of "[]" plain_netloc "answers 200" "asc ''Builders''" 20]
  have "search_bing_api plain_netloc (answers 200) (asc ''Builders'') [] 20 = []"
    by blast
  ultimately show ?thesis
    using a(1) by blast
qed

end
